theory Spec2Isabelle
  imports Complex_Main "HOL-Library.Sublist"
begin

section \<open>Go strings\<close>

text \<open>
  A Go \<^verbatim>\<open>string\<close> is a sequence of bytes; it is modelled as \<^typ>\<open>string\<close>, a list of
  8-bit characters. \<^verbatim>\<open>strings.HasPrefix\<close>, \<^verbatim>\<open>HasSuffix\<close>, \<^verbatim>\<open>TrimSuffix\<close>, \<^verbatim>\<open>Index\<close>,
  \<^verbatim>\<open>Contains\<close>, \<^verbatim>\<open>Split\<close> and \<^verbatim>\<open>ReplaceAll\<close> work on bytes and are written out below as
  the standard library defines them.
\<close>

definition HasPrefix :: "string \<Rightarrow> string \<Rightarrow> bool" where
  "HasPrefix s pre = (length pre \<le> length s \<and> take (length pre) s = pre)"

definition HasSuffix :: "string \<Rightarrow> string \<Rightarrow> bool" where
  "HasSuffix s suf =
     (length suf \<le> length s \<and> drop (length s - length suf) s = suf)"

definition TrimSuffix :: "string \<Rightarrow> string \<Rightarrow> string" where
  "TrimSuffix s suf =
     (if HasSuffix s suf then take (length s - length suf) s else s)"

text \<open>\<^verbatim>\<open>strings.Index\<close>: the position of the first occurrence, \<open>None\<close> for Go's \<open>-1\<close>.\<close>

fun Index :: "string \<Rightarrow> string \<Rightarrow> nat option" where
  "Index [] substr = (if substr = [] then Some 0 else None)"
| "Index (c # cs) substr =
     (if HasPrefix (c # cs) substr then Some 0 else map_option Suc (Index cs substr))"

definition Contains :: "string \<Rightarrow> string \<Rightarrow> bool" where
  "Contains s substr = (Index s substr \<noteq> None)"

text \<open>
  \<^verbatim>\<open>strings.ReplaceAll(s, old, new)\<close> for a non-empty \<open>old\<close>: the occurrences of \<open>old\<close>
  are found from left to right, without overlap. (For an empty \<open>old\<close> Go inserts \<open>new\<close>
  around every rune; the program never calls it so, and the model returns \<open>s\<close> there.)
\<close>

function ReplaceAll :: "string \<Rightarrow> string \<Rightarrow> string \<Rightarrow> string" where
  "ReplaceAll s old new =
     (if s = [] \<or> old = [] then s
      else if HasPrefix s old then new @ ReplaceAll (drop (length old) s) old new
      else hd s # ReplaceAll (tl s) old new)"
  by pat_completeness auto
termination
  by (relation "measure (\<lambda>(s, old, new). length s)") auto

declare ReplaceAll.simps [simp del]

lemma ReplaceAll_Nil [simp]: "ReplaceAll [] old new = []"
  by (simp add: ReplaceAll.simps)

text \<open>
  \<^verbatim>\<open>strings.Split(s, sep)\<close> for a non-empty \<open>sep\<close>: the pieces between the occurrences of
  \<open>sep\<close>, always at least one piece. (The program only splits at \<^verbatim>\<open>"\n"\<close>; for an empty
  \<open>sep\<close> Go explodes the string into runes, and the model returns \<open>[s]\<close>.)
\<close>

function Split :: "string \<Rightarrow> string \<Rightarrow> string list" where
  "Split s sep =
     (if sep = [] then [s]
      else case Index s sep of
             None \<Rightarrow> [s]
           | Some i \<Rightarrow> take i s # Split (drop (i + length sep) s) sep)"
  by pat_completeness auto

lemma Index_le_length: "Index s substr = Some i \<Longrightarrow> i + length substr \<le> length s"
proof (induction s arbitrary: i)
  case Nil
  then show ?case by (simp split: if_splits)
next
  case (Cons c cs)
  then show ?case by (auto simp: HasPrefix_def split: if_splits)
qed

termination Split
proof (relation "measure (\<lambda>(s, sep). length s)")
  show "wf (measure (\<lambda>(s, sep). length s))" by simp
next
  fix s sep :: string and i :: nat
  assume "sep \<noteq> []" and "Index s sep = Some i"
  then have "i + length sep \<le> length s" and "0 < length sep"
    using Index_le_length by auto
  then show "((drop (i + length sep) s, sep), (s, sep)) \<in> measure (\<lambda>(s, sep). length s)"
    by (cases s) auto
qed

declare Split.simps [simp del]

subsection \<open>ASCII case mapping\<close>

definition isASCII :: "char \<Rightarrow> bool" where
  "isASCII c = ((of_char c :: nat) < 128)"

definition isUpperASCII :: "char \<Rightarrow> bool" where
  "isUpperASCII c = (65 \<le> (of_char c :: nat) \<and> (of_char c :: nat) \<le> 90)"

definition lowerASCII :: "char \<Rightarrow> char" where
  "lowerASCII c = (if isUpperASCII c then char_of ((of_char c :: nat) + 32) else c)"

subsection \<open>\<^verbatim>\<open>strings.TrimSpace\<close>\<close>

text \<open>
  \<^verbatim>\<open>TrimSpace\<close> removes the leading and the trailing white space, as \<^verbatim>\<open>unicode.IsSpace\<close>
  defines it: the six ASCII characters, U+0085, U+00A0, U+1680, U+2000 to U+200A, U+2028,
  U+2029, U+202F, U+205F and U+3000. \<open>spaceRunes\<close> lists their UTF-8 encodings; a string
  starts (ends) with a white-space rune exactly when one of these is a prefix (suffix) of
  its bytes.
\<close>

definition spaceRunes :: "string list" where
  "spaceRunes =
     [[CHR 0x09], [CHR 0x0A], [CHR 0x0B], [CHR 0x0C], [CHR 0x0D], [CHR 0x20],
      [CHR 0xC2, CHR 0x85], [CHR 0xC2, CHR 0xA0],
      [CHR 0xE1, CHR 0x9A, CHR 0x80],
      [CHR 0xE2, CHR 0x80, CHR 0x80], [CHR 0xE2, CHR 0x80, CHR 0x81],
      [CHR 0xE2, CHR 0x80, CHR 0x82], [CHR 0xE2, CHR 0x80, CHR 0x83],
      [CHR 0xE2, CHR 0x80, CHR 0x84], [CHR 0xE2, CHR 0x80, CHR 0x85],
      [CHR 0xE2, CHR 0x80, CHR 0x86], [CHR 0xE2, CHR 0x80, CHR 0x87],
      [CHR 0xE2, CHR 0x80, CHR 0x88], [CHR 0xE2, CHR 0x80, CHR 0x89],
      [CHR 0xE2, CHR 0x80, CHR 0x8A],
      [CHR 0xE2, CHR 0x80, CHR 0xA8], [CHR 0xE2, CHR 0x80, CHR 0xA9],
      [CHR 0xE2, CHR 0x80, CHR 0xAF],
      [CHR 0xE2, CHR 0x81, CHR 0x9F],
      [CHR 0xE3, CHR 0x80, CHR 0x80]]"

definition leadingSpace :: "string \<Rightarrow> nat" where
  "leadingSpace s = (case find (HasPrefix s) spaceRunes of None \<Rightarrow> 0 | Some r \<Rightarrow> length r)"

definition trailingSpace :: "string \<Rightarrow> nat" where
  "trailingSpace s = (case find (HasSuffix s) spaceRunes of None \<Rightarrow> 0 | Some r \<Rightarrow> length r)"

lemma leadingSpace_le: "leadingSpace s \<le> length s"
  by (auto simp: leadingSpace_def HasPrefix_def find_Some_iff split: option.splits)

lemma trailingSpace_le: "trailingSpace s \<le> length s"
  by (auto simp: trailingSpace_def HasSuffix_def find_Some_iff split: option.splits)

function TrimLeft :: "string \<Rightarrow> string" where
  "TrimLeft s = (if leadingSpace s = 0 then s else TrimLeft (drop (leadingSpace s) s))"
  by pat_completeness auto
termination
proof (relation "measure length")
  fix s :: string
  assume "leadingSpace s \<noteq> 0"
  with leadingSpace_le [of s] show "(drop (leadingSpace s) s, s) \<in> measure length"
    by simp
qed simp

declare TrimLeft.simps [simp del]

function TrimRight :: "string \<Rightarrow> string" where
  "TrimRight s =
     (if trailingSpace s = 0 then s else TrimRight (take (length s - trailingSpace s) s))"
  by pat_completeness auto
termination
proof (relation "measure length")
  fix s :: string
  assume "trailingSpace s \<noteq> 0"
  with trailingSpace_le [of s]
  show "(take (length s - trailingSpace s) s, s) \<in> measure length"
    by simp
qed simp

declare TrimRight.simps [simp del]

definition TrimSpace :: "string \<Rightarrow> string" where
  "TrimSpace s = TrimRight (TrimLeft s)"

subsection \<open>UTF-8 and the case of letters\<close>

text \<open>
  A rune is a Unicode code point, an \<^verbatim>\<open>int32\<close> in Go. \<open>DecodeRuneInString\<close> is
  \<^verbatim>\<open>utf8.DecodeRuneInString\<close>: the first rune of a string and the number of bytes it takes;
  a byte sequence that is no UTF-8 encoding gives \<open>RuneError\<close> and the width 1. The masks
  and shifts of the source are written with \<open>mod\<close> and multiplication.
\<close>

type_synonym rune = int

definition RuneError :: rune where
  "RuneError = 0xFFFD"

fun DecodeRuneInString :: "string \<Rightarrow> rune \<times> nat" where
  "DecodeRuneInString [] = (RuneError, 0)"
| "DecodeRuneInString (c # rest) =
     (let s0 = of_char c in
      if s0 < 0x80 then (s0, 1)
      else if s0 < 0xC2 \<or> 0xF4 < s0 then (RuneError, 1)
      else
        let sz = (if s0 < 0xE0 then 2 else if s0 < 0xF0 then 3 else 4);
            lo = (if s0 = 0xE0 then 0xA0 else if s0 = 0xF0 then 0x90 else 0x80);
            hi = (if s0 = 0xED then 0x9F else if s0 = 0xF4 then 0x8F else 0xBF)
        in if length (c # rest) < sz then (RuneError, 1)
           else
             let s1 = of_char (rest ! 0) in
             if s1 < lo \<or> hi < s1 then (RuneError, 1)
             else if sz \<le> 2 then ((s0 mod 32) * 64 + s1 mod 64, 2)
             else
               let s2 = of_char (rest ! 1) in
               if s2 < 0x80 \<or> 0xBF < s2 then (RuneError, 1)
               else if sz \<le> 3 then ((s0 mod 16) * 4096 + (s1 mod 64) * 64 + s2 mod 64, 3)
               else
                 let s3 = of_char (rest ! 2) in
                 if s3 < 0x80 \<or> 0xBF < s3 then (RuneError, 1)
                 else ((s0 mod 8) * 262144 + (s1 mod 64) * 4096 + (s2 mod 64) * 64
                       + s3 mod 64, 4))"

text \<open>
  The runes of a string, as \<^verbatim>\<open>for _, c := range s\<close> yields them: \<open>skip\<close> counts the bytes
  that still belong to the rune decoded last.
\<close>

fun runesFrom :: "nat \<Rightarrow> string \<Rightarrow> rune list" where
  "runesFrom skip [] = []"
| "runesFrom skip (c # rest) =
     (if 0 < skip then runesFrom (skip - 1) rest
      else case DecodeRuneInString (c # rest) of (r, width) \<Rightarrow> r # runesFrom (width - 1) rest)"

definition runes :: "string \<Rightarrow> rune list" where
  "runes s = runesFrom 0 s"

text \<open>
  \<^verbatim>\<open>utf8.AppendRune\<close>: a negative rune, a surrogate and a rune above \<^verbatim>\<open>MaxRune\<close> are
  written as \<open>RuneError\<close>; \<open>written\<close> is the rune that is written for a rune.
\<close>

definition written :: "rune \<Rightarrow> rune" where
  "written r =
     (if r < 0 \<or> 0x10FFFF < r \<or> (0xD800 \<le> r \<and> r \<le> 0xDFFF) then RuneError else r)"

definition EncodeRune :: "rune \<Rightarrow> string" where
  "EncodeRune r =
     (if 0 \<le> r \<and> r \<le> 0x7F then [char_of r]
      else if 0 \<le> r \<and> r \<le> 0x7FF then [char_of (0xC0 + r div 64), char_of (0x80 + r mod 64)]
      else
        let r = written r in
        if r \<le> 0xFFFF
        then [char_of (0xE0 + r div 4096), char_of (0x80 + (r div 64) mod 64),
              char_of (0x80 + r mod 64)]
        else [char_of (0xF0 + r div 262144), char_of (0x80 + (r div 4096) mod 64),
              char_of (0x80 + (r div 64) mod 64), char_of (0x80 + r mod 64)])"

text \<open>
  \<^verbatim>\<open>strings.Map\<close>: every rune of the string is mapped and written in UTF-8, a negative
  result is dropped. (The source keeps the bytes of the runes the mapping leaves alone;
  they are the bytes \<open>EncodeRune\<close> writes, because only the shortest encoding decodes
  to a rune, and a byte that decodes to \<open>RuneError\<close> with width 1 is written as the mapped
  \<open>RuneError\<close>.)
\<close>

definition Map :: "(rune \<Rightarrow> rune) \<Rightarrow> string \<Rightarrow> string" where
  "Map mapping s =
     concat (map (\<lambda>c. let r = mapping c in if 0 \<le> r then EncodeRune r else []) (runes s))"

text \<open>
  The case tables of the package \<^verbatim>\<open>unicode\<close> are data of the Go standard library; they
  enter as a parameter, for the runes above ASCII: \<open>toLower\<close> is
  \<^verbatim>\<open>unicode.To(unicode.LowerCase, r)\<close> and \<open>isUpper\<close> tells the upper-case letters. On
  ASCII, \<^verbatim>\<open>unicode.ToLower\<close> and \<^verbatim>\<open>unicode.IsUpper\<close> know \<open>'A'..'Z'\<close>.
\<close>

record CaseTables =
  toLower :: "rune \<Rightarrow> rune"
  isUpper :: "rune \<Rightarrow> bool"

definition unicodeToLower :: "CaseTables \<Rightarrow> rune \<Rightarrow> rune" where
  "unicodeToLower tables r =
     (if r \<le> 0x7F then (if 65 \<le> r \<and> r \<le> 90 then r + 32 else r) else toLower tables r)"

definition unicodeIsUpper :: "CaseTables \<Rightarrow> rune \<Rightarrow> bool" where
  "unicodeIsUpper tables r = (if r \<le> 0x7F then 65 \<le> r \<and> r \<le> 90 else isUpper tables r)"

text \<open>
  \<^verbatim>\<open>strings.ToLower\<close>: a string of ASCII bytes is mapped byte by byte (\<open>'A'..'Z'\<close> to
  \<open>'a'..'z'\<close>); a string with a byte \<open>\<ge> 0x80\<close> goes through
  \<^verbatim>\<open>strings.Map(unicode.ToLower, s)\<close>.
\<close>

definition ToLower :: "CaseTables \<Rightarrow> string \<Rightarrow> string" where
  "ToLower tables s =
     (if list_all isASCII s then map lowerASCII s else Map (unicodeToLower tables) s)"

section \<open>Lexical paths (\<^verbatim>\<open>path/filepath\<close> on Unix)\<close>

text \<open>
  \<^verbatim>\<open>filepath.Clean\<close>: \<open>out\<close> is the buffer written so far, \<open>dotdot\<close> the index in it below
  which a \<^verbatim>\<open>..\<close> element may not backtrack, \<open>rest\<close> the part of the path not yet read.
\<close>

function backtrack :: "string \<Rightarrow> nat \<Rightarrow> nat \<Rightarrow> nat" where
  "backtrack out dotdot w =
     (if dotdot < w \<and> out ! w \<noteq> CHR ''/'' then backtrack out dotdot (w - 1) else w)"
  by pat_completeness auto
termination
  by (relation "measure (\<lambda>(out, dotdot, w). w)") auto

declare backtrack.simps [simp del]

definition notSep :: "char \<Rightarrow> bool" where
  "notSep c = (c \<noteq> CHR ''/'')"

text \<open>
  One round of the loop of \<^verbatim>\<open>Clean\<close>. At a separator the loop moves on by one byte.
  Otherwise it looks at the path element that starts here, \<open>takeWhile notSep rest\<close>: the
  source tests \<^verbatim>\<open>path[r] == '.'\<close> followed by the end or a separator (the element is
  \<^verbatim>\<open>.\<close>), then two dots followed by the end or a separator (the element is \<^verbatim>\<open>..\<close>), and
  in each case leaves \<open>r\<close> at the end of the element.
\<close>

function clean_loop :: "bool \<Rightarrow> string \<Rightarrow> string \<Rightarrow> nat \<Rightarrow> string" where
  "clean_loop rooted rest out dotdot =
     (if rest = [] then out
      else if \<not> notSep (hd rest) then clean_loop rooted (tl rest) out dotdot
      else if takeWhile notSep rest = ''.'' then
        clean_loop rooted (dropWhile notSep rest) out dotdot
      else if takeWhile notSep rest = ''..'' then
        (if dotdot < length out then
           clean_loop rooted (dropWhile notSep rest)
             (take (backtrack out dotdot (length out - 1)) out) dotdot
         else if \<not> rooted then
           clean_loop rooted (dropWhile notSep rest)
             ((if out = [] then out else out @ ''/'') @ ''..'')
             (length ((if out = [] then out else out @ ''/'') @ ''..''))
         else clean_loop rooted (dropWhile notSep rest) out dotdot)
      else
        clean_loop rooted (dropWhile notSep rest)
          ((if (rooted \<and> length out \<noteq> 1) \<or> (\<not> rooted \<and> out \<noteq> []) then out @ ''/'' else out)
             @ takeWhile notSep rest)
          dotdot)"
  by pat_completeness auto

lemma dropWhile_shorter:
  "rest \<noteq> [] \<Longrightarrow> P (hd rest) \<Longrightarrow> length (dropWhile P rest) < length rest"
  by (cases rest) (simp_all add: less_Suc_eq_le length_dropWhile_le)

termination clean_loop
proof (relation "measure (\<lambda>(rooted, rest, out, dotdot). length rest)")
  fix rest :: string
  assume "rest \<noteq> []"
  then show "\<And>rooted out dotdot. ((rooted, tl rest, out, dotdot), (rooted, rest, out, dotdot))
      \<in> measure (\<lambda>(rooted, rest, out, dotdot). length rest)"
    by (cases rest) simp_all
qed (simp_all only: in_measure prod.case wf_measure not_not,
     (rule dropWhile_shorter, assumption, assumption)+)

declare clean_loop.simps [simp del]

definition Clean :: "string \<Rightarrow> string" where
  "Clean path =
     (if path = [] then ''.''
      else let rooted = (hd path = CHR ''/'');
               out = (if rooted then clean_loop True (tl path) ''/'' 1
                      else clean_loop False path [] 0)
           in if out = [] then ''.'' else out)"

text \<open>
  \<^verbatim>\<open>filepath.Dir\<close>: everything up to and including the last separator, cleaned; the
  backward scan for the separator is written with \<open>rev\<close> and \<open>dropWhile\<close>.
\<close>

definition Dir :: "string \<Rightarrow> string" where
  "Dir path = Clean (rev (dropWhile notSep (rev path)))"

section \<open>Errors, panics and floating point\<close>

text \<open>
  A Go \<^verbatim>\<open>error\<close> is modelled by its message; \<open>None\<close> of type \<open>error option\<close> is the
  \<^verbatim>\<open>nil\<close> error. A function that can dereference a \<^verbatim>\<open>nil\<close> pointer or index out
  of range returns an \<open>outcome\<close>: \<open>Done\<close> with what it returns, or \<open>Panic\<close>.
\<close>

type_synonym error = string

datatype 'a outcome = Done 'a | Panic

text \<open>
  A \<^verbatim>\<open>float64\<close> is a finite value, an infinity or a NaN; \<open>float_less\<close> is Go's \<^verbatim>\<open><\<close>
  on it (every comparison with a NaN is false).
\<close>

datatype float64 = Finite real | PosInf | NegInf | NaN

fun float_less :: "float64 \<Rightarrow> float64 \<Rightarrow> bool" where
  "float_less NaN y = False"
| "float_less x NaN = False"
| "float_less (Finite a) (Finite b) = (a < b)"
| "float_less (Finite a) PosInf = True"
| "float_less (Finite a) NegInf = False"
| "float_less PosInf y = False"
| "float_less NegInf NegInf = False"
| "float_less NegInf y = True"

section \<open>The coverage analyzer (\<^verbatim>\<open>scripts/coverage-analyzer.go\<close>)\<close>

subsection \<open>Parsing the runner's output\<close>

text \<open>
  The pattern \<^verbatim>\<open>coverage: (\d+\.?\d*)% of statements\<close>. \<open>matchHere s\<close> matches it at the
  start of \<open>s\<close>: after the literal prefix, the longest run of digits, at least one; a dot if
  there is one; the longest run of digits; then the literal suffix. (Taking fewer digits or
  skipping the dot never lets the suffix match where this fails, so this is the only
  match at that position.) \<open>FindStringSubmatch\<close> returns the leftmost match as
  \<open>[whole, group]\<close>, and \<open>[]\<close> for Go's \<^verbatim>\<open>nil\<close> when there is none.
\<close>

definition isDigit :: "char \<Rightarrow> bool" where
  "isDigit c = (48 \<le> (of_char c :: nat) \<and> (of_char c :: nat) \<le> 57)"

definition matchHere :: "string \<Rightarrow> string list" where
  "matchHere s =
     (if HasPrefix s ''coverage: '' then
        let r = drop (length ''coverage: '') s;
            int_part = takeWhile isDigit r;
            r = dropWhile isDigit r;
            dot = (if HasPrefix r ''.'' then ''.'' else []);
            r = drop (length dot) r;
            frac = takeWhile isDigit r;
            r = dropWhile isDigit r
        in if int_part \<noteq> [] \<and> HasPrefix r ''% of statements''
           then [''coverage: '' @ int_part @ dot @ frac @ ''% of statements'', int_part @ dot @ frac]
           else []
      else [])"

fun FindStringSubmatch :: "string \<Rightarrow> string list" where
  "FindStringSubmatch [] = []"
| "FindStringSubmatch (c # cs) =
     (if matchHere (c # cs) \<noteq> [] then matchHere (c # cs) else FindStringSubmatch cs)"

text \<open>
  \<^verbatim>\<open>strconv.ParseFloat\<close> is the parameter \<open>ParseFloat\<close>: it returns the nearest
  \<^verbatim>\<open>float64\<close>, or an error (for the strings the pattern lets through, when the value is
  out of range).
\<close>

definition parseCoverageOutput :: "(string \<Rightarrow> error + float64) \<Rightarrow> string \<Rightarrow> error + float64" where
  "parseCoverageOutput ParseFloat output =
     (let matches = FindStringSubmatch output in
      if length matches < 2 then Inr (Finite 0)
      else case ParseFloat (matches ! 1) of
             Inl err \<Rightarrow> Inl (''failed to parse coverage percentage: '' @ err)
           | Inr coverage \<Rightarrow> Inr coverage)"

subsection \<open>The process environment\<close>

text \<open>
  What the analyzer touches outside the program: the working directory, the directories
  that exist, what \<^verbatim>\<open>os.Stat\<close> reports for each absolute path, the commands run so far,
  and the error of the system for an absolute path that one cannot change into (such as
  \<^verbatim>\<open>no such file or directory\<close> or \<^verbatim>\<open>not a directory\<close>). A relative name is resolved
  against the working directory (lexically, as \<^verbatim>\<open>filepath.Abs\<close> does).
\<close>

datatype stat_result = StatOk | StatNotExist | StatError

record world =
  cwd :: string
  dirs :: "string set"
  files :: "string \<Rightarrow> stat_result"
  execs :: "string list list"
  chdirErrno :: "string \<Rightarrow> error"

definition absPath :: "string \<Rightarrow> string \<Rightarrow> string" where
  "absPath wd name = Clean (if HasPrefix name ''/'' then name else wd @ ''/'' @ name)"

definition Stat :: "world \<Rightarrow> string \<Rightarrow> stat_result" where
  "Stat w name = files w (absPath (cwd w) name)"

text \<open>\<^verbatim>\<open>os.Remove\<close>; the analyzer ignores its error.\<close>

definition Remove :: "world \<Rightarrow> string \<Rightarrow> world" where
  "Remove w name =
     (if Stat w name = StatOk
      then w\<lparr>files := (files w)(absPath (cwd w) name := StatNotExist)\<rparr>
      else w)"

definition Getwd :: "world \<Rightarrow> error + string" where
  "Getwd w = (if cwd w \<in> dirs w then Inr (cwd w) else Inl ''getwd: no such file or directory'')"

text \<open>\<^verbatim>\<open>os.Chdir\<close>; its error names the operation, the path as given and the error of the system.\<close>

definition Chdir :: "world \<Rightarrow> string \<Rightarrow> error option \<times> world" where
  "Chdir w dir =
     (if absPath (cwd w) dir \<in> dirs w then (None, w\<lparr>cwd := absPath (cwd w) dir\<rparr>)
      else (Some (''chdir '' @ dir @ '': '' @ chdirErrno w (absPath (cwd w) dir)), w))"

text \<open>
  The test runner is a parameter: from the environment and the command line it gives the
  combined output, the error of \<^verbatim>\<open>cmd.CombinedOutput\<close> (\<open>None\<close> for exit status 0) and
  whether it wrote the coverage profile. The profile \<^verbatim>\<open>coverage.out\<close> is written in the
  directory the command runs in.
\<close>

record run_result =
  runOutput :: string
  runErr :: "error option"
  runWritesProfile :: bool

definition CombinedOutput ::
  "(world \<Rightarrow> string list \<Rightarrow> run_result) \<Rightarrow> world \<Rightarrow> string list
     \<Rightarrow> (string \<times> error option) \<times> world" where
  "CombinedOutput run w argv =
     (let r = run w argv in
      ((runOutput r, runErr r),
       w\<lparr>execs := execs w @ [argv],
         files := (if runWritesProfile r
                   then (files w)(absPath (cwd w) ''coverage.out'' := StatOk)
                   else files w)\<rparr>))"

definition goTestArgs :: "string \<Rightarrow> string list" where
  "goTestArgs packageDir =
     [''go'', ''test'', ''-cover'', ''-coverprofile=coverage.out'', packageDir]"

subsection \<open>\<^verbatim>\<open>AnalyzeFile\<close>\<close>

text \<open>
  The result is the triple \<^verbatim>\<open>(needsTests, coverage, err)\<close> and the environment the call
  leaves behind.
\<close>

definition AnalyzeFile ::
  "(world \<Rightarrow> string list \<Rightarrow> run_result) \<Rightarrow> (string \<Rightarrow> error + float64) \<Rightarrow> world \<Rightarrow> string
     \<Rightarrow> float64 \<Rightarrow> (bool \<times> float64 \<times> error option) \<times> world" where
  "AnalyzeFile run ParseFloat w filePath threshold =
     (let testFile = TrimSuffix filePath ''.go'' @ ''_test.go'' in
      if Stat w testFile = StatNotExist then ((True, Finite 0, None), w)
      else
        let packageDir = Dir filePath;
            packageDir = (if packageDir = [] then ''.'' else packageDir);
            (res, w) = CombinedOutput run w (goTestArgs packageDir)
        in case snd res of
             Some err \<Rightarrow>
               if Contains (fst res) ''no test files'' then ((True, Finite 0, None), w)
               else ((False, Finite 0,
                      Some (''failed to run coverage: '' @ err @ '', output: '' @ fst res)), w)
           | None \<Rightarrow>
               (case parseCoverageOutput ParseFloat (fst res) of
                  Inl err \<Rightarrow>
                    ((False, Finite 0, Some (''failed to parse coverage output: '' @ err)), w)
                | Inr coverage \<Rightarrow>
                    ((float_less coverage threshold, coverage, None), Remove w ''coverage.out'')))"

subsection \<open>The analyzer that changes into the package directory\<close>

text \<open>
  The repository holds a second copy of the analyzer. It resolves the path when the
  program runs from the \<^verbatim>\<open>scripts\<close> directory, changes into the package directory, runs
  the tests on \<^verbatim>\<open>.\<close> and leaves the clean-up to a deferred function. \<open>AnalyzeFile_chdir\<close>
  is its \<^verbatim>\<open>AnalyzeFile\<close>; \<open>deferred\<close> is the deferred function, which runs on every return
  after the \<^verbatim>\<open>defer\<close> statement.
\<close>

definition Join :: "string \<Rightarrow> string \<Rightarrow> string" where
  "Join a b = (if a \<noteq> [] then Clean (a @ ''/'' @ b) else if b \<noteq> [] then Clean b else [])"

definition Abs :: "world \<Rightarrow> string \<Rightarrow> error + string" where
  "Abs w path =
     (if HasPrefix path ''/'' then Inr (Clean path)
      else case Getwd w of Inl err \<Rightarrow> Inl err | Inr wd \<Rightarrow> Inr (Join wd path))"

definition resolveFilePath :: "world \<Rightarrow> string \<Rightarrow> string" where
  "resolveFilePath w filePath =
     (case Getwd w of
        Inr wd \<Rightarrow>
          if HasSuffix wd ''/scripts'' \<or> HasSuffix wd (CHR 0x5C # ''scripts'')
          then Join ''..'' filePath else filePath
      | Inl err \<Rightarrow> filePath)"

definition deferred :: "string \<Rightarrow> world \<Rightarrow> world" where
  "deferred originalDir w = Remove (snd (Chdir w originalDir)) ''coverage.out''"

definition AnalyzeFile_chdir ::
  "(world \<Rightarrow> string list \<Rightarrow> run_result) \<Rightarrow> (string \<Rightarrow> error + float64) \<Rightarrow> world \<Rightarrow> string
     \<Rightarrow> float64 \<Rightarrow> (bool \<times> float64 \<times> error option) \<times> world" where
  "AnalyzeFile_chdir run ParseFloat w filePath threshold =
     (let resolvedPath = resolveFilePath w filePath;
          testFile = TrimSuffix resolvedPath ''.go'' @ ''_test.go'' in
      if Stat w testFile = StatNotExist then ((True, Finite 0, None), w)
      else
        let packageDir = Dir resolvedPath;
            packageDir = (if packageDir = [] then ''.'' else packageDir)
        in case Getwd w of
             Inl err \<Rightarrow> ((False, Finite 0, Some (''failed to get current directory: '' @ err)), w)
           | Inr originalDir \<Rightarrow>
               (case Abs w packageDir of
                  Inl err \<Rightarrow> ((False, Finite 0, Some (''failed to get absolute path: '' @ err)), w)
                | Inr absPackageDir \<Rightarrow>
                    (case Chdir w absPackageDir of
                       (Some err, w) \<Rightarrow>
                         ((False, Finite 0,
                           Some (''failed to change to package directory: '' @ err)), w)
                     | (None, w) \<Rightarrow>
                         let (res, w) = CombinedOutput run w (goTestArgs ''.'')
                         in case snd res of
                              Some err \<Rightarrow>
                                if Contains (fst res) ''no test files''
                                then ((True, Finite 0, None), deferred originalDir w)
                                else ((False, Finite 0,
                                       Some (''failed to run coverage: '' @ err @ '', output: ''
                                             @ fst res)),
                                      deferred originalDir w)
                            | None \<Rightarrow>
                                (case parseCoverageOutput ParseFloat (fst res) of
                                   Inl err \<Rightarrow>
                                     ((False, Finite 0,
                                       Some (''failed to parse coverage output: '' @ err)),
                                      deferred originalDir w)
                                 | Inr coverage \<Rightarrow>
                                     ((float_less coverage threshold, coverage, None),
                                      deferred originalDir w)))))"

subsection \<open>Selecting the functions of a file\<close>

text \<open>
  \<^verbatim>\<open>token.IsExported\<close>: the first rune of the name is an upper-case letter. For an ASCII
  first byte that is \<open>'A'..'Z'\<close>; for any other first byte the answer comes from the Unicode
  tables of the Go standard library, the parameter \<open>isUpperRune\<close>.
\<close>

definition IsExported :: "(string \<Rightarrow> bool) \<Rightarrow> string \<Rightarrow> bool" where
  "IsExported isUpperRune name =
     (case name of
        [] \<Rightarrow> False
      | c # _ \<Rightarrow> if isASCII c then isUpperASCII c else isUpperRune name)"

text \<open>
  What the extractor reads of an \<^verbatim>\<open>ast.FuncDecl\<close>: the name (a pointer to an identifier),
  the statements of the body (\<open>None\<close> for a declaration without body), and the line numbers
  that the file set reports for \<^verbatim>\<open>fn.Pos()\<close> and \<^verbatim>\<open>fn.End()\<close>. The parsed file is the sequence
  of nodes that \<^verbatim>\<open>ast.Inspect\<close> visits; only function declarations matter to the visitor.
  Reading the file and parsing it are parameters.
\<close>

datatype 's FuncDecl =
  FuncDecl (fnName: "string option") (fnBody: "'s list option") (fnPosLine: int) (fnEndLine: int)

datatype 's Node = FuncDeclNode "'s FuncDecl" | OtherNode

record FunctionInfo =
  Name :: string
  Content :: string
  StartLine :: int
  EndLine :: int

definition shouldIncludeFunction :: "'s FuncDecl \<Rightarrow> bool" where
  "shouldIncludeFunction fn =
     (case fnName fn of
        None \<Rightarrow> False
      | Some name \<Rightarrow>
          if HasPrefix name ''Test'' \<or> HasPrefix name ''Benchmark'' then False
          else if (case fnBody fn of None \<Rightarrow> False | Some list \<Rightarrow> length list < 3) then False
          else True)"

text \<open>
  The loop that copies the lines of a declaration, from index \<open>i\<close>; indexing \<open>lines\<close> with a
  negative \<open>i\<close> panics.
\<close>

function funcContent :: "string list \<Rightarrow> int \<Rightarrow> int \<Rightarrow> string \<Rightarrow> string outcome" where
  "funcContent lines endLine i acc =
     (if i < endLine \<and> i < int (length lines) then
        (if i < 0 then Panic
         else funcContent lines endLine (i + 1) (acc @ lines ! nat i @ ''\<newline>''))
      else Done acc)"
  by pat_completeness auto
termination
  by (relation "measure (\<lambda>(lines, endLine, i, acc). nat (int (length lines) - i))") auto

declare funcContent.simps [simp del]

text \<open>The visitor passed to \<^verbatim>\<open>ast.Inspect\<close>, on one node; \<open>functions\<close> is the slice built so far.\<close>

definition visit ::
  "(string \<Rightarrow> bool) \<Rightarrow> string \<Rightarrow> 's Node \<Rightarrow> FunctionInfo list \<Rightarrow> FunctionInfo list outcome" where
  "visit isUpperRune content n functions =
     (case n of
        OtherNode \<Rightarrow> Done functions
      | FuncDeclNode fn \<Rightarrow>
          (case fnName fn of
             None \<Rightarrow> Panic
           | Some name \<Rightarrow>
               if IsExported isUpperRune name \<or> shouldIncludeFunction fn then
                 (case funcContent (Split content ''\<newline>'') (fnEndLine fn) (fnPosLine fn - 1) [] of
                    Panic \<Rightarrow> Panic
                  | Done funcText \<Rightarrow>
                      Done (functions @
                        [\<lparr>Name = name, Content = funcText,
                          StartLine = fnPosLine fn, EndLine = fnEndLine fn\<rparr>]))
               else Done functions))"

fun Inspect ::
  "(string \<Rightarrow> bool) \<Rightarrow> string \<Rightarrow> 's Node list \<Rightarrow> FunctionInfo list \<Rightarrow> FunctionInfo list outcome" where
  "Inspect isUpperRune content [] functions = Done functions"
| "Inspect isUpperRune content (n # ns) functions =
     (case visit isUpperRune content n functions of
        Panic \<Rightarrow> Panic
      | Done functions' \<Rightarrow> Inspect isUpperRune content ns functions')"

definition ExtractModifiedFunctions ::
  "(string \<Rightarrow> error + string) \<Rightarrow> (string \<Rightarrow> string \<Rightarrow> error + 's Node list) \<Rightarrow> (string \<Rightarrow> bool)
     \<Rightarrow> string \<Rightarrow> (error + FunctionInfo list) outcome" where
  "ExtractModifiedFunctions ReadFile ParseFile isUpperRune filePath =
     (case ReadFile filePath of
        Inl err \<Rightarrow> Done (Inl (''failed to read file: '' @ err))
      | Inr content \<Rightarrow>
          (case ParseFile filePath content of
             Inl err \<Rightarrow> Done (Inl (''failed to parse file: '' @ err))
           | Inr node \<Rightarrow>
               (case Inspect isUpperRune content node [] of
                  Panic \<Rightarrow> Panic
                | Done functions \<Rightarrow> Done (Inr functions))))"

text \<open>
  The vocabulary of the statements about the extractor: the function declarations of a
  parsed file in source order; a declaration with an exported name; a body of fewer than
  three statements; the test of the visitor; what identifies a declaration and a
  descriptor.
\<close>

fun funcDecls :: "'s Node list \<Rightarrow> 's FuncDecl list" where
  "funcDecls [] = []"
| "funcDecls (FuncDeclNode fn # ns) = fn # funcDecls ns"
| "funcDecls (OtherNode # ns) = funcDecls ns"

definition exported :: "(string \<Rightarrow> bool) \<Rightarrow> 's FuncDecl \<Rightarrow> bool" where
  "exported isUpperRune fn =
     (case fnName fn of None \<Rightarrow> False | Some name \<Rightarrow> IsExported isUpperRune name)"

definition smallBody :: "'s FuncDecl \<Rightarrow> bool" where
  "smallBody fn = (case fnBody fn of None \<Rightarrow> False | Some list \<Rightarrow> length list < 3)"

definition selected :: "(string \<Rightarrow> bool) \<Rightarrow> 's FuncDecl \<Rightarrow> bool" where
  "selected isUpperRune fn = (exported isUpperRune fn \<or> shouldIncludeFunction fn)"

definition declKey :: "'s FuncDecl \<Rightarrow> string \<times> int \<times> int" where
  "declKey fn = (case fnName fn of None \<Rightarrow> [] | Some name \<Rightarrow> name, fnPosLine fn, fnEndLine fn)"

definition infoKey :: "FunctionInfo \<Rightarrow> string \<times> int \<times> int" where
  "infoKey f = (Name f, StartLine f, EndLine f)"

section \<open>The pull-request creator\<close>

text \<open>
  The values exchanged with the GitHub client, with the fields the program reads or
  writes; a pointer is an \<open>option\<close>. The client is a record of functions, one for each call
  the program makes (every call passes the same owner and repository, left out here); of
  each answer the model keeps what the program looks at. Every function returns, with its
  result, the calls it made, in order.
\<close>

record Response =
  StatusCode :: int

record GitObject =
  objSHA :: "string option"

record Reference =
  Ref :: "string option"
  Object :: "GitObject option"

record RepositoryContent =
  contentSHA :: "string option"

record RepositoryContentFileOptions =
  optMessage :: "string option"
  optContent :: string
  optSHA :: "string option"
  optBranch :: "string option"

record NewPullRequest =
  prTitle :: "string option"
  prHead :: "string option"
  prBase :: "string option"
  prBody :: "string option"

record Client =
  GetRef :: "string \<Rightarrow> Reference option \<times> Response option \<times> error option"
  DeleteRef :: "string \<Rightarrow> error option"
  CreateRef :: "Reference \<Rightarrow> error option"
  GetContents :: "string \<Rightarrow> string \<Rightarrow> RepositoryContent option \<times> Response option \<times> error option"
  CreateFile :: "string \<Rightarrow> RepositoryContentFileOptions \<Rightarrow> error option"
  UpdateFile :: "string \<Rightarrow> RepositoryContentFileOptions \<Rightarrow> error option"
  PullRequestsCreate :: "NewPullRequest \<Rightarrow> error option"

datatype Call =
    CallGetRef string
  | CallDeleteRef string
  | CallCreateRef Reference
  | CallGetContents string string
  | CallCreateFile string RepositoryContentFileOptions
  | CallUpdateFile string RepositoryContentFileOptions
  | CallPullRequestsCreate NewPullRequest

text \<open>
  \<open>createOrUpdateFile\<close>. The condition \<^verbatim>\<open>err != nil && resp.StatusCode == 404\<close> reads the
  status through the response pointer whenever there is an error; \<^verbatim>\<open>existingFile.SHA\<close>
  reads through the file pointer. The base64 encoder is the parameter \<open>EncodeToString\<close>.
\<close>

definition createOrUpdateFile ::
  "Client \<Rightarrow> (string \<Rightarrow> string) \<Rightarrow> string \<Rightarrow> string \<Rightarrow> string
     \<Rightarrow> error option outcome \<times> Call list" where
  "createOrUpdateFile client EncodeToString filePath content branchName =
     (case GetContents client filePath branchName of
        (existingFile, resp, err) \<Rightarrow>
          let calls = [CallGetContents filePath branchName];
              encodedContent = EncodeToString content
          in case err of
               Some e \<Rightarrow>
                 (case resp of
                    None \<Rightarrow> (Panic, calls)
                  | Some r \<Rightarrow>
                      if StatusCode r = 404 then
                        let fileOptions =
                              \<lparr>optMessage = Some (''Add auto-generated tests for '' @ filePath),
                               optContent = encodedContent,
                               optSHA = None,
                               optBranch = Some branchName\<rparr>
                        in case CreateFile client filePath fileOptions of
                             Some e' \<Rightarrow> (Done (Some (''failed to create file: '' @ e')),
                                         calls @ [CallCreateFile filePath fileOptions])
                           | None \<Rightarrow> (Done None, calls @ [CallCreateFile filePath fileOptions])
                      else (Done (Some (''failed to check file existence: '' @ e)), calls))
             | None \<Rightarrow>
                 (case existingFile of
                    None \<Rightarrow> (Panic, calls)
                  | Some file \<Rightarrow>
                      let fileOptions =
                            \<lparr>optMessage = Some (''Update auto-generated tests for '' @ filePath),
                             optContent = encodedContent,
                             optSHA = contentSHA file,
                             optBranch = Some branchName\<rparr>
                      in case UpdateFile client filePath fileOptions of
                           Some e' \<Rightarrow> (Done (Some (''failed to update file: '' @ e')),
                                       calls @ [CallUpdateFile filePath fileOptions])
                         | None \<Rightarrow> (Done None, calls @ [CallUpdateFile filePath fileOptions])))"

text \<open>
  \<open>CreateTestPR\<close>, in the blocks of the source. \<open>checkBranch\<close> is the look-up of the branch
  with the deletion of an existing one, \<open>createBranch\<close> the creation of the new reference
  from \<^verbatim>\<open>mainRef.Object.SHA\<close>, \<open>createPullRequest\<close> the last block. The first two give
  \<open>Some\<close> outcome when the function returns (or panics) there and \<open>None\<close> when it goes on.
  The title starts with the four bytes of a test-tube emoji; the description is built by
  \<^verbatim>\<open>buildPRDescription\<close>, a parameter here (fixed text around the file name and the
  formatted coverage).
\<close>

definition checkBranch :: "Client \<Rightarrow> string \<Rightarrow> error option outcome option \<times> Call list" where
  "checkBranch client branchName =
     (case GetRef client (''refs/heads/'' @ branchName) of
        (_, resp, err) \<Rightarrow>
          let calls = [CallGetRef (''refs/heads/'' @ branchName)] in
          case err of
            None \<Rightarrow>
              (case DeleteRef client (''refs/heads/'' @ branchName) of
                 Some e \<Rightarrow> (Some (Done (Some (''failed to delete existing branch: '' @ e))),
                            calls @ [CallDeleteRef (''refs/heads/'' @ branchName)])
               | None \<Rightarrow> (None, calls @ [CallDeleteRef (''refs/heads/'' @ branchName)]))
          | Some e \<Rightarrow>
              (case resp of
                 None \<Rightarrow> (Some Panic, calls)
               | Some r \<Rightarrow>
                   if StatusCode r \<noteq> 404
                   then (Some (Done (Some (''failed to check branch existence: '' @ e))), calls)
                   else (None, calls)))"

definition createBranch ::
  "Client \<Rightarrow> Reference option \<Rightarrow> string \<Rightarrow> error option outcome option \<times> Call list" where
  "createBranch client mainRef branchName =
     (case mainRef of
        None \<Rightarrow> (Some Panic, [])
      | Some main \<Rightarrow>
          (case Object main of
             None \<Rightarrow> (Some Panic, [])
           | Some obj \<Rightarrow>
               let newRef = \<lparr>Ref = Some (''refs/heads/'' @ branchName),
                               Object = Some \<lparr>objSHA = objSHA obj\<rparr>\<rparr>
               in case CreateRef client newRef of
                    Some e \<Rightarrow> (Some (Done (Some (''failed to create branch: '' @ e))),
                               [CallCreateRef newRef])
                  | None \<Rightarrow> (None, [CallCreateRef newRef])))"

definition prTitleText :: "string \<Rightarrow> string" where
  "prTitleText originalFile =
     [CHR 0xF0, CHR 0x9F, CHR 0xA7, CHR 0xAA] @ '' Auto-generated tests for '' @ originalFile"

definition createPullRequest ::
  "Client \<Rightarrow> (string \<Rightarrow> float64 \<Rightarrow> string) \<Rightarrow> string \<Rightarrow> string \<Rightarrow> float64
     \<Rightarrow> error option outcome \<times> Call list" where
  "createPullRequest client buildPRDescription originalFile branchName coverage =
     (let title = prTitleText originalFile;
          body = buildPRDescription originalFile coverage;
          pr = \<lparr>prTitle = Some title, prHead = Some branchName,
                 prBase = Some ''main'', prBody = Some body\<rparr>
      in case PullRequestsCreate client pr of
           Some e \<Rightarrow> (Done (Some (''failed to create pull request: '' @ e)),
                      [CallPullRequestsCreate pr])
         | None \<Rightarrow> (Done None, [CallPullRequestsCreate pr]))"

definition CreateTestPR ::
  "Client \<Rightarrow> (string \<Rightarrow> string) \<Rightarrow> (string \<Rightarrow> float64 \<Rightarrow> string)
     \<Rightarrow> string \<Rightarrow> string \<Rightarrow> string \<Rightarrow> string \<Rightarrow> float64 \<Rightarrow> error option outcome \<times> Call list" where
  "CreateTestPR client EncodeToString buildPRDescription
       originalFile testFileName testContent branchName coverage =
     (case GetRef client ''refs/heads/main'' of
        (mainRef, _, Some e) \<Rightarrow>
          (Done (Some (''failed to get main branch ref: '' @ e)), [CallGetRef ''refs/heads/main''])
      | (mainRef, _, None) \<Rightarrow>
          (case checkBranch client branchName of
             (Some stop, calls1) \<Rightarrow> (stop, CallGetRef ''refs/heads/main'' # calls1)
           | (None, calls1) \<Rightarrow>
               (case createBranch client mainRef branchName of
                  (Some stop, calls2) \<Rightarrow> (stop, CallGetRef ''refs/heads/main'' # calls1 @ calls2)
                | (None, calls2) \<Rightarrow>
                    (case createOrUpdateFile client EncodeToString testFileName testContent
                            branchName of
                       (Panic, calls3) \<Rightarrow>
                         (Panic, CallGetRef ''refs/heads/main'' # calls1 @ calls2 @ calls3)
                     | (Done (Some e), calls3) \<Rightarrow>
                         (Done (Some (''failed to create test file: '' @ e)),
                          CallGetRef ''refs/heads/main'' # calls1 @ calls2 @ calls3)
                     | (Done None, calls3) \<Rightarrow>
                         (case createPullRequest client buildPRDescription originalFile
                                 branchName coverage of
                            (res, calls4) \<Rightarrow>
                              (res, CallGetRef ''refs/heads/main'' # calls1 @ calls2 @ calls3
                                      @ calls4))))))"

section \<open>The test generator: cleaning the generated text\<close>

text \<open>
  \<open>cleanupGeneratedCode\<close>; its third parameter is not used. \<open>testingRef\<close> is the text
  \<^verbatim>\<open>"testing"\<close> with its quotes; \<open>insertImport\<close> is the loop over the lines, with the flag
  \<^verbatim>\<open>importAdded\<close> and the builder \<^verbatim>\<open>result\<close>.
\<close>

definition testingRef :: string where
  "testingRef = CHR 0x22 # ''testing'' @ [CHR 0x22]"

fun insertImport :: "string list \<Rightarrow> bool \<Rightarrow> string \<Rightarrow> string" where
  "insertImport [] importAdded result = result"
| "insertImport (line # lines) importAdded result =
     (if HasPrefix (TrimSpace line) ''package '' \<and> \<not> importAdded
      then insertImport lines True
             (result @ line @ ''\<newline>'' @ ''\<newline>import '' @ testingRef @ ''\<newline>'')
      else insertImport lines importAdded (result @ line @ ''\<newline>''))"

definition cleanupGeneratedCode :: "string \<Rightarrow> string \<Rightarrow> string list \<Rightarrow> string" where
  "cleanupGeneratedCode generatedCode packageName imports =
     (let generatedCode = ReplaceAll generatedCode ''```go'' [];
          generatedCode = ReplaceAll generatedCode ''```'' [];
          generatedCode =
            (if \<not> Contains generatedCode ''package ''
             then ''package '' @ packageName @ ''\<newline>\<newline>'' @ generatedCode
             else generatedCode);
          generatedCode =
            (if \<not> Contains generatedCode testingRef
             then insertImport (Split generatedCode ''\<newline>'') False []
             else generatedCode)
      in TrimSpace generatedCode)"

text \<open>
  The vocabulary of the statements about the clean-up: the fence marker; the text after
  the two replacements; a line that starts with \<^verbatim>\<open>package \<close> once trimmed (the test of the
  loop); the text the loop inserts; the lines with their line ends put back; the bytes
  that occur in white space; a package name whose clause \<^verbatim>\<open>package <name>\<close> trimming leaves
  as it is (the name is not empty and does not end in white space) and that has no
  newline, double quote or backtick.
\<close>

definition fence :: string where
  "fence = ''```''"

definition joinLines :: "string list \<Rightarrow> string" where
  "joinLines ls = concat (map (\<lambda>l. l @ ''\<newline>'') ls)"

definition backtick :: char where
  "backtick = CHR 0x60"

definition leadTicks :: "string \<Rightarrow> nat" where
  "leadTicks s = length (takeWhile (\<lambda>c. c = backtick) s)"

definition spaceByte :: "char \<Rightarrow> bool" where
  "spaceByte c = (c \<in> set (concat spaceRunes))"

definition isPackageLine :: "string \<Rightarrow> bool" where
  "isPackageLine l = HasPrefix (TrimSpace l) ''package ''"

definition importText :: string where
  "importText = ''\<newline>import '' @ testingRef @ ''\<newline>''"

definition stripFences :: "string \<Rightarrow> string" where
  "stripFences raw = ReplaceAll (ReplaceAll raw ''```go'' []) ''```'' []"

definition plainName :: "string \<Rightarrow> bool" where
  "plainName name =
     (TrimSpace (''package '' @ name) = ''package '' @ name \<and> CHR 0x0A \<notin> set name
      \<and> CHR 0x22 \<notin> set name \<and> CHR 0x60 \<notin> set name)"

definition packageWord :: string where
  "packageWord = ''package ''"

section \<open>Branch names (\<^verbatim>\<open>scripts/main.go\<close>)\<close>

definition createBranchName :: "CaseTables \<Rightarrow> string \<Rightarrow> string" where
  "createBranchName tables filePath =
     (let dir = Dir filePath in
      if dir = ''.'' then ''auto-tests-root''
      else let branchName = ReplaceAll dir ''/'' ''-'';
               branchName = ReplaceAll branchName ''_'' ''-'';
               branchName = ToLower tables branchName
           in ''auto-tests-'' @ branchName)"

text \<open>
  A byte that may occur in a branch name: no ASCII capital, no path separator, no
  underscore.
\<close>

definition branchChar :: "char \<Rightarrow> bool" where
  "branchChar c = (\<not> isUpperASCII c \<and> c \<noteq> CHR ''/'' \<and> c \<noteq> CHR ''_'')"

text \<open>
  A text is entirely lower case when none of its runes is an upper-case letter
  (\<^verbatim>\<open>unicode.IsUpper\<close>).
\<close>

definition entirelyLower :: "CaseTables \<Rightarrow> string \<Rightarrow> bool" where
  "entirelyLower tables s = list_all (\<lambda>r. \<not> unicodeIsUpper tables r) (runes s)"

text \<open>
  The runes that lower-casing makes of the runes of a text: each rune is mapped by
  \<^verbatim>\<open>unicode.ToLower\<close> and written, a negative result is dropped.
\<close>

definition lowerRunes :: "CaseTables \<Rightarrow> string \<Rightarrow> rune list" where
  "lowerRunes tables s =
     map written (filter (\<lambda>r. 0 \<le> r) (map (unicodeToLower tables) (runes s)))"

text \<open>
  What the branch name needs from the case tables: the lower case of a rune above ASCII
  is no path separator, no underscore and no ASCII capital.
\<close>

definition lowerContract :: "CaseTables \<Rightarrow> bool" where
  "lowerContract tables =
     (\<forall>r. 0x7F < r \<longrightarrow>
        toLower tables r \<noteq> 0x2F \<and> toLower tables r \<noteq> 0x5F
        \<and> \<not> (65 \<le> toLower tables r \<and> toLower tables r \<le> 90))"

text \<open>
  For the proofs: the replacement of one byte by another, on bytes and on runes; two
  bytes are similar when they are equal or both ASCII.
\<close>

definition swapByte :: "char \<Rightarrow> char \<Rightarrow> char \<Rightarrow> char" where
  "swapByte x y c = (if c = x then y else c)"

definition swapRune :: "char \<Rightarrow> char \<Rightarrow> rune \<Rightarrow> rune" where
  "swapRune x y r = (if r = of_char x then of_char y else r)"

definition sim :: "char \<Rightarrow> char \<Rightarrow> bool" where
  "sim a b = (a = b \<or> ((of_char a :: int) < 128 \<and> (of_char b :: int) < 128))"

section \<open>Sample inputs\<close>

text \<open>
  A file with one test function, as the parser would report it: the package clause and
  the declaration of \<^verbatim>\<open>TestAdd\<close> on lines 3 to 5, with one statement in its body.
\<close>

definition sampleTestSource :: string where
  "sampleTestSource =
     ''package calc\<newline>\<newline>func TestAdd(t *testing.T) {\<newline>    check(t)\<newline>}\<newline>''"

definition sampleTestNodes :: "unit Node list" where
  "sampleTestNodes = [OtherNode, FuncDeclNode (FuncDecl (Some ''TestAdd'') (Some [()]) 3 5)]"

text \<open>
  A file with an exported function of one statement, and two functions that are not
  exported, of one and of three statements.
\<close>

definition sampleNodes :: "unit Node list" where
  "sampleNodes =
     [OtherNode,
      FuncDeclNode (FuncDecl (Some ''Add'') (Some [()]) 3 5),
      FuncDeclNode (FuncDecl (Some ''reset'') (Some [()]) 7 9),
      OtherNode,
      FuncDeclNode (FuncDecl (Some ''divide'') (Some [(), (), ()]) 11 18)]"

text \<open>
  A repository checked out at \<^verbatim>\<open>/repo\<close>: \<^verbatim>\<open>pkg/calc.go\<close> has a test file beside it,
  \<^verbatim>\<open>pkg/factorial.go\<close> has none. A path below a regular file is not a directory, any other
  path that is not listed does not exist. One runner reports a failing test, one a
  coverage of 55.5 per cent; both write the coverage profile.
\<close>

definition sampleFiles :: "string list" where
  "sampleFiles = [''/repo/pkg/calc.go'', ''/repo/pkg/calc_test.go'', ''/repo/pkg/factorial.go'']"

definition belowFile :: "string \<Rightarrow> bool" where
  "belowFile p = list_ex (\<lambda>f. HasPrefix p (f @ ''/'')) sampleFiles"

definition sampleRepo :: world where
  "sampleRepo =
     \<lparr>cwd = ''/repo'', dirs = {''/repo'', ''/repo/pkg''},
      files = (\<lambda>p. if p \<in> set sampleFiles \<or> p = ''/repo'' \<or> p = ''/repo/pkg'' then StatOk
                    else if belowFile p then StatError else StatNotExist),
      execs = [],
      chdirErrno = (\<lambda>p. if p \<in> set sampleFiles \<or> belowFile p then ''not a directory''
                         else ''no such file or directory'')\<rparr>"

definition failingRun :: "world \<Rightarrow> string list \<Rightarrow> run_result" where
  "failingRun w argv =
     \<lparr>runOutput = ''--- FAIL: TestAdd (0.00s)\<newline>FAIL\<newline>'',
      runErr = Some ''exit status 1'', runWritesProfile = True\<rparr>"

definition okRun :: "world \<Rightarrow> string list \<Rightarrow> run_result" where
  "okRun w argv =
     \<lparr>runOutput = ''ok  pkg 0.01s  coverage: 55.5% of statements\<newline>'',
      runErr = None, runWritesProfile = True\<rparr>"

definition sampleParseFloat :: "string \<Rightarrow> error + float64" where
  "sampleParseFloat s =
     (if s = ''55.5'' then Inr (Finite 55.5) else Inl ''strconv.ParseFloat: invalid syntax'')"

text \<open>
  A client whose repository has the branch and lacks the file: every reference is found,
  the look-up of the file answers 404, every write succeeds.
\<close>

definition sampleMainRef :: Reference where
  "sampleMainRef =
     \<lparr>Ref = Some ''refs/heads/main'', Object = Some \<lparr>objSHA = Some ''test-sha''\<rparr>\<rparr>"

definition sampleClient :: Client where
  "sampleClient =
     \<lparr>GetRef = (\<lambda>ref. (Some sampleMainRef, Some \<lparr>StatusCode = 200\<rparr>, None)),
      DeleteRef = (\<lambda>ref. None),
      CreateRef = (\<lambda>ref. None),
      GetContents = (\<lambda>path ref. (None, Some \<lparr>StatusCode = 404\<rparr>, Some ''404 Not Found'')),
      CreateFile = (\<lambda>path opts. None),
      UpdateFile = (\<lambda>path opts. None),
      PullRequestsCreate = (\<lambda>pr. None)\<rparr>"

text \<open>
  The rows of the Unicode case tables that the examples read: the capital letters of
  Latin-1 (\<open>U+00C0\<close> to \<open>U+00DE\<close>, without the multiplication sign) have their lower case 32
  places up; \<open>U+2102\<close>, the double-struck capital C, is an upper-case letter without a
  lower case. Two paths in UTF-8: a directory whose name starts with \<open>U+00C9\<close>, the capital
  E with acute, and a directory named \<open>U+2102\<close>.
\<close>

definition sampleTables :: CaseTables where
  "sampleTables =
     \<lparr>toLower = (\<lambda>r. if 0xC0 \<le> r \<and> r \<le> 0xDE \<and> r \<noteq> 0xD7 then r + 32 else r),
      isUpper = (\<lambda>r. (0xC0 \<le> r \<and> r \<le> 0xDE \<and> r \<noteq> 0xD7) \<or> r = 0x2102)\<rparr>"

definition accentPath :: string where
  "accentPath = [CHR 0xC3, CHR 0x89] @ ''cole/calc.go''"

definition capitalPath :: string where
  "capitalPath = [CHR 0xE2, CHR 0x84, CHR 0x82] @ ''/calc.go''"

text \<open>
  A generated text whose first line is a comment that mentions the package, and that has
  neither a package clause nor an import.
\<close>

definition commentOnly :: string where
  "commentOnly = ''// Tests for the calc package functions\<newline>func TestAdd(t *testing.T) {}''"

section \<open>Properties of the string functions\<close>

lemma HasPrefix_append: "HasPrefix (p @ t) p"
  by (simp add: HasPrefix_def)

lemma HasPrefix_single: "HasPrefix s [a] \<longleftrightarrow> s \<noteq> [] \<and> hd s = a"
  by (cases s) (auto simp: HasPrefix_def)

lemma set_ReplaceAll_single: "set (ReplaceAll s [a] [b]) \<subseteq> insert b (set s - {a})"
proof (induction s "[a]" "[b]" rule: ReplaceAll.induct)
  case (1 s)
  show ?case
  proof (cases "s = []")
    case True
    then show ?thesis by simp
  next
    case False
    then obtain c cs where s: "s = c # cs" by (cases s) auto
    show ?thesis
    proof (cases "c = a")
      case True
      with s 1(1) have "set (ReplaceAll cs [a] [b]) \<subseteq> insert b (set cs - {a})"
        by (simp add: HasPrefix_single)
      moreover have "ReplaceAll s [a] [b] = b # ReplaceAll cs [a] [b]"
        using s True by (subst ReplaceAll.simps) (simp add: HasPrefix_single)
      ultimately show ?thesis using s by auto
    next
      case False
      with s 1(2) have "set (ReplaceAll cs [a] [b]) \<subseteq> insert b (set cs - {a})"
        by (simp add: HasPrefix_single)
      moreover have "ReplaceAll s [a] [b] = c # ReplaceAll cs [a] [b]"
        using s False by (subst ReplaceAll.simps) (simp add: HasPrefix_single)
      ultimately show ?thesis using s False by auto
    qed
  qed
qed

lemma lowerASCII_cases:
  "lowerASCII c = c \<or> (97 \<le> (of_char (lowerASCII c) :: nat) \<and> (of_char (lowerASCII c) :: nat) \<le> 122)"
  by (simp add: lowerASCII_def isUpperASCII_def)

lemma branchChar_lowerASCII:
  assumes "c \<noteq> CHR ''/''" and "c \<noteq> CHR ''_''"
  shows "branchChar (lowerASCII c)"
proof -
  have "\<not> isUpperASCII (lowerASCII c)"
    by (simp add: lowerASCII_def isUpperASCII_def)
  moreover have "lowerASCII c \<noteq> CHR ''/''"
    using lowerASCII_cases [of c] assms by auto
  moreover have "lowerASCII c \<noteq> CHR ''_''"
    using lowerASCII_cases [of c] assms by auto
  ultimately show ?thesis by (simp add: branchChar_def)
qed

subsection \<open>Bytes and runes\<close>

lemma of_char_int: "(of_char c :: int) = int (of_char c)"
  by (simp only: of_nat_of_char)

lemma of_char_int_range: "0 \<le> (of_char c :: int) \<and> (of_char c :: int) < 256"
  using nat_of_char_less_256 [of c] by (simp add: of_char_int)

lemma high_byte_branchChar:
  assumes "128 \<le> (of_char c :: int)"
  shows "branchChar c"
proof -
  have "128 \<le> (of_char c :: nat)" using assms by (simp add: of_char_int)
  moreover have "(of_char (CHR ''/'') :: nat) = 47" and "(of_char (CHR ''_'') :: nat) = 95"
    by simp_all
  ultimately show ?thesis
    unfolding branchChar_def isUpperASCII_def by auto
qed

lemma char_of_high:
  assumes "128 \<le> b" and "0 \<le> q" and "b + q < 256"
  shows "128 \<le> (of_char (char_of (b + q :: int)) :: int)"
  using assms by (simp add: of_char_of)

lemma div_bounds:
  fixes r :: int
  assumes "0 \<le> r" and "r \<le> m" and "0 < d"
  shows "0 \<le> r div d \<and> r div d \<le> m div d"
  using assms by (simp add: zdiv_mono1 pos_imp_zdiv_nonneg_iff)

lemma EncodeRune_high:
  assumes "0x80 \<le> r" and "c \<in> set (EncodeRune r)"
  shows "128 \<le> (of_char c :: int)"
proof -
  have m: "0 \<le> x mod 64 \<and> 128 + x mod 64 < 256" for x :: int
    using pos_mod_bound [of 64 x] pos_mod_sign [of 64 x] by simp
  have low: "128 \<le> (of_char (char_of (128 + x mod 64 :: int)) :: int)" for x :: int
    using m [of x] by (intro char_of_high) simp_all
  define r' where "r' = written r"
  have r': "0 \<le> r'" "r' \<le> 0x10FFFF"
    using assms(1) by (auto simp: r'_def written_def RuneError_def)
  define b2 :: char where "b2 = char_of (192 + r div 64)"
  define b3 :: char where "b3 = char_of (224 + r' div 4096)"
  define b4 :: char where "b4 = char_of (240 + r' div 262144)"
  define t :: "int \<Rightarrow> char" where "t = (\<lambda>x. char_of (128 + x mod 64))"
  have t: "128 \<le> (of_char (t x) :: int)" for x
    unfolding t_def by (rule low)
  have e: "EncodeRune r =
      (if r \<le> 0x7FF then [b2, t r]
       else if r' \<le> 0xFFFF then [b3, t (r' div 64), t r']
       else [b4, t (r' div 4096), t (r' div 64), t r'])"
    using assms(1) by (simp add: EncodeRune_def r'_def [symmetric] Let_def b2_def b3_def b4_def t_def)
  have b2: "128 \<le> (of_char b2 :: int)" if "r \<le> 0x7FF"
  proof -
    from div_bounds [of r "0x7FF" 64] that assms(1)
    have "0 \<le> r div 64 \<and> r div 64 \<le> 31" by simp
    then show ?thesis unfolding b2_def by (intro char_of_high) simp_all
  qed
  have b3: "128 \<le> (of_char b3 :: int)" if "r' \<le> 0xFFFF"
  proof -
    from div_bounds [of r' "0xFFFF" 4096] that r'
    have "0 \<le> r' div 4096 \<and> r' div 4096 \<le> 15" by simp
    then show ?thesis unfolding b3_def by (intro char_of_high) simp_all
  qed
  have b4: "128 \<le> (of_char b4 :: int)"
  proof -
    from div_bounds [of r' "0x10FFFF" 262144] r'
    have "0 \<le> r' div 262144 \<and> r' div 262144 \<le> 4" by simp
    then show ?thesis unfolding b4_def by (intro char_of_high) simp_all
  qed
  from assms(2) have "c \<in> set (if r \<le> 0x7FF then [b2, t r]
       else if r' \<le> 0xFFFF then [b3, t (r' div 64), t r']
       else [b4, t (r' div 4096), t (r' div 64), t r'])"
    by (simp only: e)
  then show ?thesis
    using b2 b3 b4 t by (auto split: if_splits)
qed

lemma mod_window:
  fixes y :: int
  assumes "0 \<le> y" and "y < d"
  shows "(k * d + y) mod d = y"
  using assms by (simp add: mod_pos_pos_trivial)

lemma decoded2:
  fixes s0 s1 :: int
  assumes "194 \<le> s0" and "s0 < 224"
  shows "128 \<le> s0 mod 32 * 64 + s1 mod 64"
proof -
  have "s0 mod 32 = s0 - 192"
    using mod_window [of "s0 - 192" 32 6] assms by simp
  moreover have "0 \<le> s1 mod 64" by simp
  ultimately show ?thesis using assms by linarith
qed

lemma decoded3:
  fixes s0 s1 s2 :: int
  assumes "224 \<le> s0" and "s0 < 240" and "(if s0 = 224 then 160 else 128) \<le> s1" and "s1 \<le> 191"
  shows "128 \<le> s0 mod 16 * 4096 + s1 mod 64 * 64 + s2 mod 64"
proof -
  have a: "s0 mod 16 = s0 - 224"
    using mod_window [of "s0 - 224" 16 14] assms by simp
  have "128 \<le> s1" using assms(3) by (simp split: if_splits)
  then have b: "s1 mod 64 = s1 - 128"
    using mod_window [of "s1 - 128" 64 2] assms by simp
  have c: "0 \<le> s2 mod 64" by simp
  show ?thesis
  proof (cases "s0 = 224")
    case True
    with assms(3) have "160 \<le> s1" by simp
    with a b c True show ?thesis by linarith
  next
    case False
    with assms(1) have "225 \<le> s0" by simp
    with a b c \<open>128 \<le> s1\<close> show ?thesis by linarith
  qed
qed

lemma decoded4:
  fixes s0 s1 s2 s3 :: int
  assumes "240 \<le> s0" and "s0 \<le> 244" and "(if s0 = 240 then 144 else 128) \<le> s1" and "s1 \<le> 191"
  shows "128 \<le> s0 mod 8 * 262144 + s1 mod 64 * 4096 + s2 mod 64 * 64 + s3 mod 64"
proof -
  have a: "s0 mod 8 = s0 - 240"
    using mod_window [of "s0 - 240" 8 30] assms by simp
  have "128 \<le> s1" using assms(3) by (simp split: if_splits)
  then have b: "s1 mod 64 = s1 - 128"
    using mod_window [of "s1 - 128" 64 2] assms by simp
  have c: "0 \<le> s2 mod 64" "0 \<le> s3 mod 64" by simp_all
  show ?thesis
  proof (cases "s0 = 240")
    case True
    with assms(3) have "144 \<le> s1" by simp
    with a b c True show ?thesis by linarith
  next
    case False
    with assms(1) have "241 \<le> s0" by simp
    with a b c \<open>128 \<le> s1\<close> show ?thesis by linarith
  qed
qed

lemma DecodeRuneInString_high:
  assumes "128 \<le> (of_char c :: int)"
  shows "128 \<le> fst (DecodeRuneInString (c # rest))"
proof -
  define s0 :: int where "s0 = of_char c"
  define s1 :: int where "s1 = of_char (rest ! 0)"
  define s2 :: int where "s2 = of_char (rest ! 1)"
  define s3 :: int where "s3 = of_char (rest ! 2)"
  define lo :: int where "lo = (if s0 = 0xE0 then 0xA0 else if s0 = 0xF0 then 0x90 else 0x80)"
  define hi :: int where "hi = (if s0 = 0xED then 0x9F else if s0 = 0xF4 then 0x8F else 0xBF)"
  define v2 where "v2 = s0 mod 32 * 64 + s1 mod 64"
  define v3 where "v3 = s0 mod 16 * 4096 + s1 mod 64 * 64 + s2 mod 64"
  define v4 where "v4 = s0 mod 8 * 262144 + s1 mod 64 * 4096 + s2 mod 64 * 64 + s3 mod 64"
  have hi: "hi \<le> 191" by (simp add: hi_def)
  have r: "fst (DecodeRuneInString (c # rest)) = RuneError
      \<or> (fst (DecodeRuneInString (c # rest)) = v2 \<and> 194 \<le> s0 \<and> s0 < 224)
      \<or> (fst (DecodeRuneInString (c # rest)) = v3 \<and> 224 \<le> s0 \<and> s0 < 240 \<and> lo \<le> s1 \<and> s1 \<le> hi)
      \<or> (fst (DecodeRuneInString (c # rest)) = v4 \<and> 240 \<le> s0 \<and> s0 \<le> 244 \<and> lo \<le> s1 \<and> s1 \<le> hi)"
    using assms
    unfolding DecodeRuneInString.simps Let_def s0_def [symmetric] s1_def [symmetric]
      s2_def [symmetric] s3_def [symmetric] lo_def [symmetric] hi_def [symmetric]
      v2_def [symmetric] v3_def [symmetric] v4_def [symmetric]
    by (simp split: if_splits)
  have "128 \<le> v2" if "194 \<le> s0" "s0 < 224"
    unfolding v2_def using that by (rule decoded2)
  moreover have "128 \<le> v3" if "224 \<le> s0" "s0 < 240" "lo \<le> s1" "s1 \<le> hi"
    unfolding v3_def using that hi by (intro decoded3) (simp_all add: lo_def split: if_splits)
  moreover have "128 \<le> v4" if "240 \<le> s0" "s0 \<le> 244" "lo \<le> s1" "s1 \<le> hi"
    unfolding v4_def using that hi by (intro decoded4) (simp_all add: lo_def split: if_splits)
  ultimately show ?thesis
    using r by (auto simp: RuneError_def)
qed

lemma DecodeRuneInString_ascii:
  assumes "(of_char c :: int) < 128"
  shows "DecodeRuneInString (c # rest) = (of_char c, 1)"
  using assms by simp

lemma runesFrom_cases:
  assumes "r \<in> set (runesFrom k s)"
  shows "128 \<le> r \<or> (\<exists>c \<in> set s. r = of_char c)"
  using assms
proof (induction s arbitrary: k)
  case Nil
  then show ?case by simp
next
  case (Cons c rest)
  show ?case
  proof (cases "0 < k")
    case True
    with Cons.prems have "r \<in> set (runesFrom (k - 1) rest)" by simp
    from Cons.IH [OF this] show ?thesis by auto
  next
    case False
    obtain v w where d: "DecodeRuneInString (c # rest) = (v, w)" by (cases "DecodeRuneInString (c # rest)")
    with False Cons.prems have "r = v \<or> r \<in> set (runesFrom (w - 1) rest)"
      by (simp del: DecodeRuneInString.simps)
    then show ?thesis
    proof
      assume "r = v"
      show ?thesis
      proof (cases "(of_char c :: int) < 128")
        case True
        with d \<open>r = v\<close> show ?thesis by simp
      next
        case False
        then have "128 \<le> fst (DecodeRuneInString (c # rest))"
          by (intro DecodeRuneInString_high) simp
        with d \<open>r = v\<close> show ?thesis by simp
      qed
    next
      assume "r \<in> set (runesFrom (w - 1) rest)"
      from Cons.IH [OF this] show ?thesis by auto
    qed
  qed
qed

lemma isASCII_int: "isASCII c \<longleftrightarrow> (of_char c :: int) < 128"
  by (simp add: isASCII_def of_char_int)

lemma runes_ascii:
  assumes "list_all isASCII s"
  shows "runes s = map of_char s"
  using assms unfolding runes_def
  by (induction s) (simp_all add: isASCII_int)

subsection \<open>Reading back what was written\<close>

lemma byte_value:
  assumes "0 \<le> v" and "v < 256"
  shows "(of_char (char_of (v :: int)) :: int) = v"
  using assms by (simp add: of_char_of)

lemma decode1:
  assumes "(of_char c0 :: int) < 128"
  shows "DecodeRuneInString (c0 # t) = (of_char c0, 1)"
  using assms by simp

lemma decode2:
  assumes "(of_char c0 :: int) = 192 + q" and "2 \<le> q" and "q \<le> 31"
    and "(of_char c1 :: int) = 128 + m" and "0 \<le> m" and "m \<le> 63"
  shows "DecodeRuneInString (c0 # c1 # t) = (q * 64 + m, 2)"
proof -
  have a: "(192 + q) mod 32 = q"
    using mod_window [of q 32 6] assms by simp
  have b: "(128 + m) mod 64 = m"
    using mod_window [of m 64 2] assms by simp
  show ?thesis
    using assms a b by (simp add: Let_def)
qed

lemma decode3:
  assumes "(of_char c0 :: int) = 224 + q" and "0 \<le> q" and "q \<le> 15"
    and "(of_char c1 :: int) = 128 + n" and "0 \<le> n" and "n \<le> 63"
    and "q = 0 \<longrightarrow> 32 \<le> n" and "q = 13 \<longrightarrow> n \<le> 31"
    and "(of_char c2 :: int) = 128 + m" and "0 \<le> m" and "m \<le> 63"
  shows "DecodeRuneInString (c0 # c1 # c2 # t) = (q * 4096 + n * 64 + m, 3)"
proof -
  have a: "(224 + q) mod 16 = q"
    using mod_window [of q 16 14] assms by simp
  have b: "(128 + n) mod 64 = n"
    using mod_window [of n 64 2] assms by simp
  have c: "(128 + m) mod 64 = m"
    using mod_window [of m 64 2] assms by simp
  show ?thesis
    using assms a b c by (auto simp: Let_def)
qed

lemma decode4:
  assumes "(of_char c0 :: int) = 240 + q" and "0 \<le> q" and "q \<le> 4"
    and "(of_char c1 :: int) = 128 + n" and "0 \<le> n" and "n \<le> 63"
    and "q = 0 \<longrightarrow> 16 \<le> n" and "q = 4 \<longrightarrow> n \<le> 15"
    and "(of_char c2 :: int) = 128 + k" and "0 \<le> k" and "k \<le> 63"
    and "(of_char c3 :: int) = 128 + m" and "0 \<le> m" and "m \<le> 63"
  shows "DecodeRuneInString (c0 # c1 # c2 # c3 # t) = (q * 262144 + n * 4096 + k * 64 + m, 4)"
proof -
  have a: "(240 + q) mod 8 = q"
    using mod_window [of q 8 30] assms by simp
  have b: "(128 + n) mod 64 = n"
    using mod_window [of n 64 2] assms by simp
  have c: "(128 + k) mod 64 = k"
    using mod_window [of k 64 2] assms by simp
  have d: "(128 + m) mod 64 = m"
    using mod_window [of m 64 2] assms by simp
  show ?thesis
    using assms a b c d by (auto simp: Let_def)
qed


lemma split64:
  fixes r :: int
  shows "r = 64 * (r div 64) + r mod 64 \<and> 0 \<le> r mod 64 \<and> r mod 64 \<le> 63"
  using pos_mod_bound [of 64 r] by simp

lemma div_div_64:
  "(r :: int) div 64 div 64 = r div 4096"
  "(r :: int) div 4096 div 64 = r div 262144"
  by (simp_all add: div_mult2_eq [symmetric])

lemma DecodeRuneInString_EncodeRune:
  assumes "0 \<le> r"
  shows "DecodeRuneInString (EncodeRune r @ t) = (written r, length (EncodeRune r))"
proof -
  consider "r \<le> 0x7F" | "0x7F < r" "r \<le> 0x7FF" | "0x7FF < r" "written r \<le> 0xFFFF"
    | "0x7FF < r" "0xFFFF < written r"
    by linarith
  then show ?thesis
  proof cases
    case 1
    with assms have "(of_char (char_of r :: char) :: int) = r"
      by (intro byte_value) simp_all
    with 1 show ?thesis
      by (simp add: EncodeRune_def written_def decode1 del: DecodeRuneInString.simps)
  next
    case 2
    define q where "q = r div 64"
    define m where "m = r mod 64"
    have r: "r = 64 * q + m" "0 \<le> m" "m \<le> 63"
      using split64 [of r] by (simp_all add: q_def m_def)
    with 2 have q: "2 \<le> q" "q \<le> 31" by linarith+
    have e: "EncodeRune r = [char_of (192 + q), char_of (128 + m)]"
      using 2 by (simp add: EncodeRune_def q_def m_def)
    have "DecodeRuneInString (char_of (192 + q) # char_of (128 + m) # t) = (q * 64 + m, 2)"
      using q r by (intro decode2) (simp_all add: byte_value)
    with e r(1) 2 show ?thesis
      by (simp add: written_def del: DecodeRuneInString.simps)
  next
    case 3
    define w where "w = written r"
    define u where "u = w div 64"
    define q where "q = w div 4096"
    define n where "n = u mod 64"
    define m where "m = w mod 64"
    have w: "0x7FF < w" "w \<le> 0xFFFF" "\<not> (0xD800 \<le> w \<and> w \<le> 0xDFFF)"
      using 3 by (auto simp: w_def written_def RuneError_def)
    have a: "w = 64 * u + m" "0 \<le> m" "m \<le> 63"
      using split64 [of w] by (simp_all add: u_def m_def)
    have b: "u = 64 * q + n" "0 \<le> n" "n \<le> 63"
      using split64 [of u] div_div_64 (1) [of w] by (simp_all add: u_def q_def n_def)
    from a b w have q: "0 \<le> q" "q \<le> 15" by linarith+
    from a b w have x: "q = 0 \<longrightarrow> 32 \<le> n" "q = 13 \<longrightarrow> n \<le> 31" by auto
    have e: "EncodeRune r = [char_of (224 + q), char_of (128 + n), char_of (128 + m)]"
      using 3 by (simp add: EncodeRune_def written_def Let_def w_def q_def n_def m_def u_def)
    have "DecodeRuneInString (char_of (224 + q) # char_of (128 + n) # char_of (128 + m) # t)
        = (q * 4096 + n * 64 + m, 3)"
      using q a b x by (intro decode3) (simp_all add: byte_value)
    moreover have "q * 4096 + n * 64 + m = w" using a b by simp
    ultimately show ?thesis
      unfolding e by (simp add: w_def del: DecodeRuneInString.simps)
  next
    case 4
    define w where "w = written r"
    define u where "u = w div 64"
    define v where "v = w div 4096"
    define q where "q = w div 262144"
    define n where "n = v mod 64"
    define k where "k = u mod 64"
    define m where "m = w mod 64"
    have w: "0xFFFF < w" "w \<le> 0x10FFFF"
      using 4 by (auto simp: w_def written_def RuneError_def split: if_splits)
    have a: "w = 64 * u + m" "0 \<le> m" "m \<le> 63"
      using split64 [of w] by (simp_all add: u_def m_def)
    have b: "u = 64 * v + k" "0 \<le> k" "k \<le> 63"
      using split64 [of u] div_div_64 (1) [of w] by (simp_all add: u_def v_def k_def)
    have c: "v = 64 * q + n" "0 \<le> n" "n \<le> 63"
      using split64 [of v] div_div_64 (2) [of w] by (simp_all add: v_def q_def n_def)
    from a b c w have q: "0 \<le> q" "q \<le> 4" by linarith+
    from a b c w have x: "q = 0 \<longrightarrow> 16 \<le> n" "q = 4 \<longrightarrow> n \<le> 15" by auto
    have e: "EncodeRune r
        = [char_of (240 + q), char_of (128 + n), char_of (128 + k), char_of (128 + m)]"
      using 4 by (simp add: EncodeRune_def written_def Let_def w_def q_def n_def m_def u_def v_def k_def)
    have "DecodeRuneInString
            (char_of (240 + q) # char_of (128 + n) # char_of (128 + k) # char_of (128 + m) # t)
        = (q * 262144 + n * 4096 + k * 64 + m, 4)"
      using q a b c x by (intro decode4) (simp_all add: byte_value)
    moreover have "q * 262144 + n * 4096 + k * 64 + m = w" using a b c by simp
    ultimately show ?thesis
      unfolding e by (simp add: w_def del: DecodeRuneInString.simps)
  qed
qed

lemma runesFrom_skip: "runesFrom (length ys) (ys @ t) = runesFrom 0 t"
  by (induction ys) simp_all

lemma EncodeRune_nonempty: "EncodeRune r \<noteq> []"
  by (simp add: EncodeRune_def Let_def)

lemma runes_EncodeRune:
  assumes "0 \<le> r"
  shows "runes (EncodeRune r @ t) = written r # runes t"
proof -
  obtain c cs where e: "EncodeRune r = c # cs"
    using EncodeRune_nonempty [of r] by (cases "EncodeRune r") auto
  have "DecodeRuneInString (c # cs @ t) = (written r, Suc (length cs))"
    using DecodeRuneInString_EncodeRune [OF assms, of t] e by simp
  then have "runesFrom 0 (c # cs @ t) = written r # runesFrom (length cs) (cs @ t)"
    by (simp del: DecodeRuneInString.simps)
  then show ?thesis
    by (simp add: runes_def e runesFrom_skip)
qed

lemma runes_Map:
  "runes (Map f s) = map written (filter (\<lambda>r. 0 \<le> r) (map f (runes s)))"
proof -
  have "runes (concat (map (\<lambda>c. let r = f c in if 0 \<le> r then EncodeRune r else []) rs))
      = map written (filter (\<lambda>r. 0 \<le> r) (map f rs))" for rs
  proof (induction rs)
    case Nil
    then show ?case by (simp add: runes_def)
  next
    case (Cons c rs)
    then show ?case by (simp add: Let_def runes_EncodeRune)
  qed
  then show ?thesis by (simp add: Map_def)
qed

lemma runes_ascii_append:
  assumes "list_all isASCII a"
  shows "runes (a @ t) = map of_char a @ runes t"
  using assms unfolding runes_def
  by (induction a) (simp_all add: isASCII_int)

lemma decode_ascii_at1:
  assumes "128 \<le> (of_char c :: int)" and "(of_char a :: int) < 128"
  shows "DecodeRuneInString (c # a # t) = (RuneError, 1)"
  using assms by (simp add: Let_def)

lemma decode_ascii_at2:
  assumes "128 \<le> (of_char c :: int)" and "(of_char b :: int) < 128" and "(of_char b' :: int) < 128"
  shows "DecodeRuneInString (c # a # b # t) = DecodeRuneInString (c # a # b' # t')"
  using assms by (simp add: Let_def)

lemma decode_ascii_at3:
  assumes "128 \<le> (of_char c :: int)" and "(of_char d :: int) < 128" and "(of_char d' :: int) < 128"
  shows "DecodeRuneInString (c # a # b # d # t) = DecodeRuneInString (c # a # b # d' # t')"
  using assms by (simp add: Let_def)

lemma decode_at4:
  "DecodeRuneInString (c # a # b # d # t) = DecodeRuneInString (c # a # b # d # t')"
  by (simp add: Let_def)

lemma decode_cong:
  assumes c: "128 \<le> (of_char c :: int)" and "list_all2 sim rest rest'"
  shows "DecodeRuneInString (c # rest) = DecodeRuneInString (c # rest')"
proof (cases rest)
  case Nil
  with assms(2) show ?thesis by simp
next
  case r1: (Cons a t1)
  with assms(2) obtain a' t1' where r1': "rest' = a' # t1'" and a: "sim a a'"
    and t1: "list_all2 sim t1 t1'"
    by (auto simp: list_all2_Cons1)
  show ?thesis
  proof (cases "a = a'")
    case False
    with a have "(of_char a :: int) < 128" "(of_char a' :: int) < 128"
      by (simp_all add: sim_def)
    then show ?thesis
      unfolding r1 r1' by (simp only: decode_ascii_at1 [OF c])
  next
    case aa: True
    show ?thesis
    proof (cases t1)
      case Nil
      with t1 aa show ?thesis unfolding r1 r1' by simp
    next
      case r2: (Cons b t2)
      with t1 obtain b' t2' where r2': "t1' = b' # t2'" and b: "sim b b'"
        and t2: "list_all2 sim t2 t2'"
        by (auto simp: list_all2_Cons1)
      show ?thesis
      proof (cases "b = b'")
        case False
        with b have "(of_char b :: int) < 128" "(of_char b' :: int) < 128"
          by (simp_all add: sim_def)
        then show ?thesis
          unfolding r1 r1' r2 r2' aa by (rule decode_ascii_at2 [OF c])
      next
        case bb: True
        show ?thesis
        proof (cases t2)
          case Nil
          with t2 aa bb show ?thesis unfolding r1 r1' r2 r2' by simp
        next
          case r3: (Cons d t3)
          with t2 obtain d' t3' where r3': "t2' = d' # t3'" and d: "sim d d'"
            by (auto simp: list_all2_Cons1)
          show ?thesis
          proof (cases "d = d'")
            case False
            with d have "(of_char d :: int) < 128" "(of_char d' :: int) < 128"
              by (simp_all add: sim_def)
            then show ?thesis
              unfolding r1 r1' r2 r2' r3 r3' aa bb by (rule decode_ascii_at3 [OF c])
          next
            case True
            show ?thesis
              unfolding r1 r1' r2 r2' r3 r3' aa bb True by (rule decode_at4)
          qed
        qed
      qed
    qed
  qed
qed

lemma runesFrom_swap:
  assumes x: "isASCII x" and y: "isASCII y"
  shows "runesFrom k (map (swapByte x y) s) = map (swapRune x y) (runesFrom k s)"
proof (induction s arbitrary: k)
  case Nil
  then show ?case by simp
next
  case (Cons c rest)
  show ?case
  proof (cases "0 < k")
    case True
    then show ?thesis using Cons.IH by simp
  next
    case k: False
    show ?thesis
    proof (cases "isASCII c")
      case True
      then have "isASCII (swapByte x y c)" using y by (simp add: swapByte_def)
      then have "DecodeRuneInString (swapByte x y c # map (swapByte x y) rest)
          = (of_char (swapByte x y c), 1)"
        by (intro decode1) (simp add: isASCII_int)
      moreover have "DecodeRuneInString (c # rest) = (of_char c, 1)"
        using True by (intro decode1) (simp add: isASCII_int)
      moreover have "(of_char (swapByte x y c) :: int) = swapRune x y (of_char c)"
        by (simp add: swapByte_def swapRune_def)
      ultimately show ?thesis
        using k Cons.IH [of 0] by (simp del: DecodeRuneInString.simps)
    next
      case False
      then have c: "128 \<le> (of_char c :: int)" by (simp add: isASCII_int)
      from False x have "swapByte x y c = c" by (auto simp: swapByte_def)
      moreover have "list_all2 sim rest (map (swapByte x y) rest)"
        using x y by (induction rest) (auto simp: sim_def swapByte_def isASCII_int)
      ultimately have e: "DecodeRuneInString (swapByte x y c # map (swapByte x y) rest)
          = DecodeRuneInString (c # rest)"
        using decode_cong [OF c] by simp
      obtain r w where d: "DecodeRuneInString (c # rest) = (r, w)"
        by (cases "DecodeRuneInString (c # rest)")
      have "128 \<le> r" using DecodeRuneInString_high [OF c, of rest] d by simp
      moreover have "(of_char x :: int) < 128" using x by (simp add: isASCII_int)
      ultimately have "swapRune x y r = r" by (simp add: swapRune_def)
      then show ?thesis
        using k e d Cons.IH [of "w - 1"] by (simp del: DecodeRuneInString.simps)
    qed
  qed
qed

lemma ReplaceAll_single: "ReplaceAll s [x] [y] = map (swapByte x y) s"
proof (induction s "[x]" "[y]" rule: ReplaceAll.induct)
  case (1 s)
  show ?case
  proof (cases s)
    case Nil
    then show ?thesis by simp
  next
    case (Cons c cs)
    show ?thesis
    proof (cases "c = x")
      case True
      with Cons 1(1) have "ReplaceAll cs [x] [y] = map (swapByte x y) cs"
        by (simp add: HasPrefix_single)
      moreover have "ReplaceAll s [x] [y] = y # ReplaceAll cs [x] [y]"
        using Cons True by (subst ReplaceAll.simps) (simp add: HasPrefix_single)
      ultimately show ?thesis using Cons True by (simp add: swapByte_def)
    next
      case False
      with Cons 1(2) have "ReplaceAll cs [x] [y] = map (swapByte x y) cs"
        by (simp add: HasPrefix_single)
      moreover have "ReplaceAll s [x] [y] = c # ReplaceAll cs [x] [y]"
        using Cons False by (subst ReplaceAll.simps) (simp add: HasPrefix_single)
      ultimately show ?thesis using Cons False by (simp add: swapByte_def)
    qed
  qed
qed

lemma runes_ReplaceAll:
  assumes "isASCII x" and "isASCII y"
  shows "runes (ReplaceAll s [x] [y]) = map (swapRune x y) (runes s)"
  unfolding runes_def ReplaceAll_single using assms by (rule runesFrom_swap)

lemma isASCII_ReplaceAll:
  assumes "isASCII x" and "isASCII y"
  shows "list_all isASCII (ReplaceAll s [x] [y]) \<longleftrightarrow> list_all isASCII s"
  unfolding ReplaceAll_single list_all_iff using assms by (auto simp: swapByte_def)

subsection \<open>Branch names\<close>

lemma branchChar_int:
  "branchChar c \<longleftrightarrow>
     \<not> (65 \<le> (of_char c :: int) \<and> (of_char c :: int) \<le> 90)
     \<and> (of_char c :: int) \<noteq> 47 \<and> (of_char c :: int) \<noteq> 95"
proof -
  have "c = CHR ''/'' \<longleftrightarrow> (of_char c :: nat) = of_char (CHR ''/'')"
    and "c = CHR ''_'' \<longleftrightarrow> (of_char c :: nat) = of_char (CHR ''_'')"
    by (simp_all only: of_char_eq_iff)
  then show ?thesis
    by (simp add: branchChar_def isUpperASCII_def of_char_int)
qed

lemma EncodeRune_branchChar:
  assumes "0 \<le> r" and "r \<noteq> 47" and "r \<noteq> 95" and "\<not> (65 \<le> r \<and> r \<le> 90)"
  shows "list_all branchChar (EncodeRune r)"
proof (cases "r \<le> 0x7F")
  case True
  with assms(1) have "(of_char (char_of r :: char) :: int) = r"
    by (simp add: of_char_of)
  with assms have "branchChar (char_of r)"
    by (simp add: branchChar_int)
  with True assms(1) show ?thesis by (simp add: EncodeRune_def)
next
  case False
  then have "0x80 \<le> r" by simp
  then show ?thesis
    unfolding list_all_iff using EncodeRune_high high_byte_branchChar by blast
qed

lemma unicodeToLower_branch:
  assumes "lowerContract tables" and "128 \<le> c \<or> (\<exists>ch \<in> set s. c = of_char ch)"
    and "CHR ''/'' \<notin> set s" and "CHR ''_'' \<notin> set s"
  shows "unicodeToLower tables c \<noteq> 47 \<and> unicodeToLower tables c \<noteq> 95
       \<and> \<not> (65 \<le> unicodeToLower tables c \<and> unicodeToLower tables c \<le> 90)"
proof (cases "c \<le> 0x7F")
  case True
  with assms(2) obtain ch where ch: "ch \<in> set s" "c = of_char ch" by auto
  with assms(3,4) have "ch \<noteq> CHR ''/''" and "ch \<noteq> CHR ''_''" by auto
  then have "(of_char ch :: nat) \<noteq> of_char (CHR ''/'')" and "(of_char ch :: nat) \<noteq> of_char (CHR ''_'')"
    by (simp_all only: of_char_eq_iff not_False_eq_True)
  then have "c \<noteq> 47" and "c \<noteq> 95"
    using ch(2) by (simp_all add: of_char_int)
  with True show ?thesis
    by (simp add: unicodeToLower_def)
next
  case False
  with assms(1) show ?thesis
    by (simp add: unicodeToLower_def lowerContract_def)
qed

lemma branchChar_Map:
  assumes "lowerContract tables" and "CHR ''/'' \<notin> set s" and "CHR ''_'' \<notin> set s"
  shows "list_all branchChar (Map (unicodeToLower tables) s)"
proof -
  have "list_all branchChar
          (let r = unicodeToLower tables c in if 0 \<le> r then EncodeRune r else [])"
    if "c \<in> set (runes s)" for c
  proof -
    from that have "128 \<le> c \<or> (\<exists>ch \<in> set s. c = of_char ch)"
      unfolding runes_def by (rule runesFrom_cases)
    from unicodeToLower_branch [OF assms(1) this assms(2,3)]
    show ?thesis
      by (simp add: Let_def EncodeRune_branchChar)
  qed
  then show ?thesis
    unfolding Map_def list_all_iff by auto
qed

lemma branchChar_ToLower:
  assumes "lowerContract tables" and "CHR ''/'' \<notin> set s" and "CHR ''_'' \<notin> set s"
  shows "list_all branchChar (ToLower tables s)"
proof (cases "list_all isASCII s")
  case True
  have "list_all branchChar (map lowerASCII s)"
    unfolding list_all_iff using assms(2,3) by (auto intro!: branchChar_lowerASCII)
  with True show ?thesis by (simp add: ToLower_def)
next
  case False
  with assms show ?thesis by (simp add: ToLower_def branchChar_Map)
qed

lemma isASCII_lowerASCII: "isASCII c \<Longrightarrow> isASCII (lowerASCII c)"
  by (simp add: isASCII_def lowerASCII_def isUpperASCII_def)

lemma entirelyLower_ascii:
  assumes "list_all isASCII s" and "list_all branchChar s"
  shows "entirelyLower tables s"
proof -
  have "\<not> unicodeIsUpper tables (of_char c)" if "c \<in> set s" for c
  proof -
    from that assms have "isASCII c" and "branchChar c"
      by (simp_all add: list_all_iff)
    then show ?thesis
      by (simp add: unicodeIsUpper_def isASCII_int branchChar_int)
  qed
  then show ?thesis
    by (simp add: entirelyLower_def runes_ascii [OF assms(1)] list_all_iff)
qed

lemma lowerContract_sample: "lowerContract sampleTables"
  by (simp add: lowerContract_def sampleTables_def)

lemma asciiRune_lower:
  assumes "c \<le> 0x7F" and "0 \<le> unicodeToLower tables c"
  shows "\<not> unicodeIsUpper tables (written (unicodeToLower tables c))"
  using assms by (simp add: unicodeToLower_def unicodeIsUpper_def written_def)

lemma lowerRunes_all:
  "list_all (\<lambda>r. \<not> unicodeIsUpper tables r) (lowerRunes tables s)
     \<longleftrightarrow> (\<forall>c \<in> set (runes s).
            0 \<le> unicodeToLower tables c
            \<longrightarrow> \<not> unicodeIsUpper tables (written (unicodeToLower tables c)))"
  by (auto simp: lowerRunes_def list_all_iff)

lemma lowerRunes_swap:
  assumes "isASCII x" and "isASCII y"
  shows "list_all (\<lambda>r. \<not> unicodeIsUpper tables r) (lowerRunes tables (ReplaceAll s [x] [y]))
     \<longleftrightarrow> list_all (\<lambda>r. \<not> unicodeIsUpper tables r) (lowerRunes tables s)"
proof -
  have x: "(of_char x :: int) \<le> 0x7F" and y: "(of_char y :: int) \<le> 0x7F"
    using assms by (simp_all add: isASCII_int)
  have "(0 \<le> unicodeToLower tables (swapRune x y c)
          \<longrightarrow> \<not> unicodeIsUpper tables (written (unicodeToLower tables (swapRune x y c))))
      \<longleftrightarrow> (0 \<le> unicodeToLower tables c
          \<longrightarrow> \<not> unicodeIsUpper tables (written (unicodeToLower tables c)))" for c
    using asciiRune_lower [OF x, of tables] asciiRune_lower [OF y, of tables]
    by (auto simp: swapRune_def)
  then show ?thesis
    unfolding lowerRunes_all runes_ReplaceAll [OF assms] by simp
qed

lemma lowerRunes_ascii:
  assumes "list_all isASCII s"
  shows "list_all (\<lambda>r. \<not> unicodeIsUpper tables r) (lowerRunes tables s)"
proof -
  have "\<not> unicodeIsUpper tables (written (unicodeToLower tables (of_char c)))"
    if "c \<in> set s" and "0 \<le> unicodeToLower tables (of_char c)" for c
  proof -
    from that(1) assms have "(of_char c :: int) < 128"
      by (simp add: list_all_iff isASCII_int)
    then have "(of_char c :: int) \<le> 0x7F" by simp
    then show ?thesis using that(2) by (rule asciiRune_lower)
  qed
  then show ?thesis
    unfolding lowerRunes_all runes_ascii [OF assms] by auto
qed

lemma entirelyLower_Map:
  assumes "list_all isASCII a" and "list_all branchChar a"
  shows "entirelyLower tables (a @ Map (unicodeToLower tables) s)
     \<longleftrightarrow> list_all (\<lambda>r. \<not> unicodeIsUpper tables r) (lowerRunes tables s)"
proof -
  have "entirelyLower tables a"
    using assms by (rule entirelyLower_ascii)
  then have "list_all (\<lambda>r. \<not> unicodeIsUpper tables r) (map of_char a)"
    by (simp add: entirelyLower_def runes_ascii [OF assms(1)])
  then show ?thesis
    by (simp add: entirelyLower_def runes_ascii_append [OF assms(1)] runes_Map lowerRunes_def)
qed

section \<open>The function extractor\<close>

lemma funcContent_Done: "0 \<le> i \<Longrightarrow> \<exists>c. funcContent lines endLine i acc = Done c"
proof (induction lines endLine i acc rule: funcContent.induct)
  case (1 lines endLine i acc)
  show ?case
  proof (cases "i < endLine \<and> i < int (length lines)")
    case True
    with 1 show ?thesis by (subst funcContent.simps) simp
  next
    case False
    then show ?thesis by (subst funcContent.simps) auto
  qed
qed

lemma visit_Done:
  assumes "\<forall>fn. n = FuncDeclNode fn \<longrightarrow> fnName fn \<noteq> None \<and> 1 \<le> fnPosLine fn"
  shows "\<exists>fs. visit up content n fs0 = Done fs
           \<and> map infoKey fs = map infoKey fs0 @ map declKey (filter (selected up) (funcDecls [n]))"
proof (cases n)
  case OtherNode
  then show ?thesis by (simp add: visit_def)
next
  case (FuncDeclNode fn')
  with assms obtain name where name: "fnName fn' = Some name" and pos: "1 \<le> fnPosLine fn'"
    by auto
  from pos have "0 \<le> fnPosLine fn' - 1" by simp
  from funcContent_Done [OF this]
  obtain c where c:
    "funcContent (Split content ''\<newline>'') (fnEndLine fn') (fnPosLine fn' - 1) [] = Done c"
    by blast
  show ?thesis
    using FuncDeclNode name c
    by (simp add: visit_def selected_def exported_def declKey_def infoKey_def)
qed

lemma Inspect_Done:
  assumes "\<forall>fn \<in> set (funcDecls ns). fnName fn \<noteq> None \<and> 1 \<le> fnPosLine fn"
  shows "\<exists>fs. Inspect up content ns fs0 = Done fs
           \<and> map infoKey fs = map infoKey fs0 @ map declKey (filter (selected up) (funcDecls ns))"
  using assms
proof (induction ns arbitrary: fs0)
  case Nil
  then show ?case by simp
next
  case (Cons n ns)
  have "\<forall>fn. n = FuncDeclNode fn \<longrightarrow> fnName fn \<noteq> None \<and> 1 \<le> fnPosLine fn"
    using Cons.prems by auto
  from visit_Done [OF this, of up content fs0]
  obtain fs1 where v: "visit up content n fs0 = Done fs1"
    and k1: "map infoKey fs1 = map infoKey fs0 @ map declKey (filter (selected up) (funcDecls [n]))"
    by auto
  have "\<forall>fn \<in> set (funcDecls ns). fnName fn \<noteq> None \<and> 1 \<le> fnPosLine fn"
    using Cons.prems by (cases n) auto
  from Cons.IH [OF this, of fs1] obtain fs where i: "Inspect up content ns fs1 = Done fs"
    and k: "map infoKey fs = map infoKey fs1 @ map declKey (filter (selected up) (funcDecls ns))"
    by auto
  show ?case
    using v i k k1 by (cases n) auto
qed

lemma small_not_included: "smallBody fn \<Longrightarrow> \<not> shouldIncludeFunction fn"
  by (auto simp: smallBody_def shouldIncludeFunction_def split: option.splits)

text \<open>
  A name with one of the reserved prefixes starts with a capital, so it is exported: the
  test on the prefix in \<open>shouldIncludeFunction\<close> is only reached for names it cannot
  reject, and a declaration with such a name is always selected.
\<close>

lemma reserved_prefix_exported:
  "HasPrefix name ''Test'' \<or> HasPrefix name ''Benchmark'' \<Longrightarrow> IsExported up name"
  by (cases name) (auto simp: HasPrefix_def IsExported_def isASCII_def isUpperASCII_def)

lemma reserved_prefix_selected:
  "fnName fn = Some name \<Longrightarrow> HasPrefix name ''Test'' \<or> HasPrefix name ''Benchmark''
     \<Longrightarrow> selected up fn"
  using reserved_prefix_exported [of name up] by (simp add: selected_def exported_def)

text \<open>
  C1. For every input file, no descriptor returned by \<open>ExtractModifiedFunctions\<close> has a
  name that starts with \<^verbatim>\<open>Test\<close> or \<^verbatim>\<open>Benchmark\<close>. The code does not keep to this: the
  visitor takes every exported declaration before it asks \<open>shouldIncludeFunction\<close>, and
  these names are exported. On the file with the single function \<^verbatim>\<open>TestAdd\<close> the extractor
  returns its descriptor.
\<close>

theorem ExtractModifiedFunctions_returns_test_function:
  "ExtractModifiedFunctions (\<lambda>path. Inr sampleTestSource) (\<lambda>path content. Inr sampleTestNodes)
       (\<lambda>name. False) ''pkg/calc_test.go''
     = Done (Inr [\<lparr>Name = ''TestAdd'',
                   Content = ''func TestAdd(t *testing.T) {\<newline>    check(t)\<newline>}\<newline>'',
                   StartLine = 3, EndLine = 5\<rparr>])
   \<and> HasPrefix ''TestAdd'' ''Test''"
  unfolding sampleTestSource_def sampleTestNodes_def by code_simp

text \<open>
  C9. For every file that is read and parsed (every declaration with a name and a
  position, as the parser gives them), the extractor returns the descriptors of the
  selected declarations, in source order; a declaration that is not exported and has a
  body of fewer than three statements is not selected, and every exported declaration
  is, whatever its body.
\<close>

theorem ExtractModifiedFunctions_selection:
  assumes "ReadFile filePath = Inr content"
    and "ParseFile filePath content = Inr nodes"
    and "\<forall>fn \<in> set (funcDecls nodes). fnName fn \<noteq> None \<and> 1 \<le> fnPosLine fn"
  shows "\<exists>functions.
           ExtractModifiedFunctions ReadFile ParseFile up filePath = Done (Inr functions)
         \<and> map infoKey functions = map declKey (filter (selected up) (funcDecls nodes))
         \<and> (\<forall>fn \<in> set (funcDecls nodes).
               (\<not> exported up fn \<and> smallBody fn \<longrightarrow> \<not> selected up fn)
             \<and> (exported up fn \<longrightarrow> selected up fn))"
proof -
  from Inspect_Done [OF assms(3), of up content "[]"]
  obtain fs where "Inspect up content nodes [] = Done fs"
    and "map infoKey fs = map declKey (filter (selected up) (funcDecls nodes))"
    by auto
  then show ?thesis
    using assms(1,2) small_not_included
    by (auto simp: ExtractModifiedFunctions_def selected_def)
qed

theorem ExtractModifiedFunctions_selection_witness:
  "list_all (\<lambda>fn. fnName fn \<noteq> None \<and> 1 \<le> fnPosLine fn) (funcDecls sampleNodes)
   \<and> (\<exists>functions.
        ExtractModifiedFunctions (\<lambda>path. Inr []) (\<lambda>path content. Inr sampleNodes)
            (\<lambda>name. False) ''pkg/calc.go'' = Done (Inr functions)
      \<and> map infoKey functions = [(''Add'', 3, 5), (''divide'', 11, 18)])
   \<and> \<not> selected (\<lambda>name. False) (FuncDecl (Some ''reset'') (Some [()]) 7 9)
   \<and> selected (\<lambda>name. False) (FuncDecl (Some ''Add'') (Some [()]) 3 5)"
proof -
  have h: "\<forall>fn \<in> set (funcDecls sampleNodes). fnName fn \<noteq> None \<and> 1 \<le> fnPosLine fn"
    by (simp add: sampleNodes_def)
  have sel: "map declKey (filter (selected (\<lambda>name. False)) (funcDecls sampleNodes))
      = [(''Add'', 3, 5), (''divide'', 11, 18)]"
    unfolding sampleNodes_def by code_simp
  have r: "\<not> selected (\<lambda>name. False) (FuncDecl (Some ''reset'') (Some [()]) 7 9)"
    by code_simp
  have a: "selected (\<lambda>name. False) (FuncDecl (Some ''Add'') (Some [()]) 3 5)"
    by code_simp
  from ExtractModifiedFunctions_selection [where ReadFile = "\<lambda>path. Inr []"
      and ParseFile = "\<lambda>path content. Inr sampleNodes" and filePath = "''pkg/calc.go''"
      and content = "[]" and nodes = sampleNodes and up = "\<lambda>name. False"] h
  obtain fs where
    "ExtractModifiedFunctions (\<lambda>path. Inr []) (\<lambda>path content. Inr sampleNodes)
        (\<lambda>name. False) ''pkg/calc.go'' = Done (Inr fs)"
    and "map infoKey fs
        = map declKey (filter (selected (\<lambda>name. False)) (funcDecls sampleNodes))"
    by auto
  with h sel r a show ?thesis by (auto simp: list_all_iff)
qed

section \<open>The coverage verdict\<close>

lemma Clean_nonempty: "Clean path \<noteq> []"
  by (simp add: Clean_def Let_def)

lemma Dir_nonempty: "Dir path \<noteq> []"
  by (simp add: Dir_def Clean_nonempty)



text \<open>
  C7. When the test file exists and the runner fails: if its output contains
  \<^verbatim>\<open>no test files\<close>, \<open>AnalyzeFile\<close> returns \<^verbatim>\<open>needsTests = true\<close>, coverage 0 and no error;
  otherwise it returns an error that carries the runner's error and output (with
  \<^verbatim>\<open>needsTests = false\<close>, never without the error).
\<close>

theorem AnalyzeFile_runner_failure:
  assumes "Stat w (TrimSuffix filePath ''.go'' @ ''_test.go'') \<noteq> StatNotExist"
    and "runErr (run w (goTestArgs (Dir filePath))) = Some err"
  shows "fst (AnalyzeFile run ParseFloat w filePath threshold) =
           (if Contains (runOutput (run w (goTestArgs (Dir filePath)))) ''no test files''
            then (True, Finite 0, None)
            else (False, Finite 0,
                  Some (''failed to run coverage: '' @ err @ '', output: ''
                        @ runOutput (run w (goTestArgs (Dir filePath))))))"
  using assms
  by (simp add: AnalyzeFile_def Dir_nonempty CombinedOutput_def Let_def)

theorem AnalyzeFile_runner_failure_witness:
  "Stat sampleRepo (TrimSuffix ''pkg/calc.go'' ''.go'' @ ''_test.go'') \<noteq> StatNotExist
   \<and> runErr (failingRun sampleRepo (goTestArgs (Dir ''pkg/calc.go''))) = Some ''exit status 1''
   \<and> \<not> Contains (runOutput (failingRun sampleRepo (goTestArgs (Dir ''pkg/calc.go''))))
          ''no test files''
   \<and> fst (AnalyzeFile failingRun sampleParseFloat sampleRepo ''pkg/calc.go'' (Finite 40)) =
        (False, Finite 0,
         Some ''failed to run coverage: exit status 1, output: --- FAIL: TestAdd (0.00s)\<newline>FAIL\<newline>'')"
proof -
  have h1: "Stat sampleRepo (TrimSuffix ''pkg/calc.go'' ''.go'' @ ''_test.go'') \<noteq> StatNotExist"
    by code_simp
  have h2: "runErr (failingRun sampleRepo (goTestArgs (Dir ''pkg/calc.go''))) = Some ''exit status 1''"
    by (simp add: failingRun_def)
  have h3: "\<not> Contains (runOutput (failingRun sampleRepo (goTestArgs (Dir ''pkg/calc.go''))))
      ''no test files''"
    unfolding failingRun_def by code_simp
  have h4: "runOutput (failingRun sampleRepo (goTestArgs (Dir ''pkg/calc.go'')))
      = ''--- FAIL: TestAdd (0.00s)\<newline>FAIL\<newline>''"
    by (simp add: failingRun_def)
  from AnalyzeFile_runner_failure [where w = sampleRepo and filePath = "''pkg/calc.go''"
      and run = failingRun and err = "''exit status 1''" and ParseFloat = sampleParseFloat
      and threshold = "Finite 40"]
    h1 h2 h3 h4
  show ?thesis by simp
qed

text \<open>
  C2. When the test file exists, the runner succeeds, its output matches the pattern and
  the matched percentage parses to \<open>c\<close>, \<open>AnalyzeFile\<close> returns the coverage \<open>c\<close>,
  \<^verbatim>\<open>needsTests = (c < threshold)\<close> and no error, for every threshold.
\<close>

theorem AnalyzeFile_threshold:
  assumes "Stat w (TrimSuffix filePath ''.go'' @ ''_test.go'') \<noteq> StatNotExist"
    and "runErr (run w (goTestArgs (Dir filePath))) = None"
    and "FindStringSubmatch (runOutput (run w (goTestArgs (Dir filePath)))) = [whole, percentage]"
    and "ParseFloat percentage = Inr c"
  shows "fst (AnalyzeFile run ParseFloat w filePath threshold) = (float_less c threshold, c, None)"
  using assms
  by (simp add: AnalyzeFile_def Dir_nonempty CombinedOutput_def Let_def parseCoverageOutput_def)

theorem AnalyzeFile_threshold_witness:
  "Stat sampleRepo (TrimSuffix ''pkg/calc.go'' ''.go'' @ ''_test.go'') \<noteq> StatNotExist
   \<and> runErr (okRun sampleRepo (goTestArgs (Dir ''pkg/calc.go''))) = None
   \<and> FindStringSubmatch (runOutput (okRun sampleRepo (goTestArgs (Dir ''pkg/calc.go''))))
       = [''coverage: 55.5% of statements'', ''55.5'']
   \<and> sampleParseFloat ''55.5'' = Inr (Finite 55.5)
   \<and> fst (AnalyzeFile okRun sampleParseFloat sampleRepo ''pkg/calc.go'' (Finite 40))
       = (False, Finite 55.5, None)"
proof -
  have h1: "Stat sampleRepo (TrimSuffix ''pkg/calc.go'' ''.go'' @ ''_test.go'') \<noteq> StatNotExist"
    by code_simp
  have h2: "runErr (okRun sampleRepo (goTestArgs (Dir ''pkg/calc.go''))) = None"
    by (simp add: okRun_def)
  have h3: "FindStringSubmatch (runOutput (okRun sampleRepo (goTestArgs (Dir ''pkg/calc.go''))))
       = [''coverage: 55.5% of statements'', ''55.5'']"
    unfolding okRun_def by code_simp
  have h4: "sampleParseFloat ''55.5'' = Inr (Finite 55.5)"
    by (simp add: sampleParseFloat_def)
  from AnalyzeFile_threshold [where w = sampleRepo and filePath = "''pkg/calc.go''"
      and run = okRun and ParseFloat = sampleParseFloat
      and whole = "''coverage: 55.5% of statements''"
      and percentage = "''55.5''" and c = "Finite 55.5" and threshold = "Finite 40"]
    h1 h2 h3 h4
  show ?thesis by simp
qed

text \<open>
  When the matched percentage does not parse (a value out of the range of \<^verbatim>\<open>float64\<close>),
  there is no verdict: the error is returned.
\<close>

lemma AnalyzeFile_parse_failure:
  assumes "Stat w (TrimSuffix filePath ''.go'' @ ''_test.go'') \<noteq> StatNotExist"
    and "runErr (run w (goTestArgs (Dir filePath))) = None"
    and "FindStringSubmatch (runOutput (run w (goTestArgs (Dir filePath)))) = [whole, percentage]"
    and "ParseFloat percentage = Inl err"
  shows "fst (AnalyzeFile run ParseFloat w filePath threshold)
           = (False, Finite 0,
              Some (''failed to parse coverage output: failed to parse coverage percentage: '' @ err))"
  using assms
  by (simp add: AnalyzeFile_def Dir_nonempty CombinedOutput_def Let_def parseCoverageOutput_def)

subsection \<open>What a run leaves behind\<close>

text \<open>
  The first analyzer never changes the working directory. The second restores it on every
  return, when the working directory is a clean absolute path.
\<close>

lemma cwd_Remove [simp]: "cwd (Remove w name) = cwd w"
  by (simp add: Remove_def)

lemma AnalyzeFile_keeps_cwd:
  "cwd (snd (AnalyzeFile run ParseFloat w filePath threshold)) = cwd w"
  by (simp add: AnalyzeFile_def CombinedOutput_def Let_def split: option.splits sum.splits)

lemma absPath_absolute: "HasPrefix name ''/'' \<Longrightarrow> absPath wd name = Clean name"
  by (simp add: absPath_def)

lemma deferred_cwd:
  assumes "HasPrefix d ''/''" and "Clean d = d" and "d \<in> dirs w"
  shows "cwd (deferred d w) = d"
  using assms by (simp add: deferred_def Chdir_def absPath_absolute)

lemma dirs_CombinedOutput: "dirs (snd (CombinedOutput run w argv)) = dirs w"
  by (simp add: CombinedOutput_def Let_def)

lemma AnalyzeFile_chdir_restores_cwd:
  assumes "HasPrefix (cwd w) ''/''" and "Clean (cwd w) = cwd w"
  shows "cwd (snd (AnalyzeFile_chdir run ParseFloat w filePath threshold)) = cwd w"
proof (cases "cwd w \<in> dirs w")
  case False
  then show ?thesis
    by (simp add: AnalyzeFile_chdir_def Getwd_def Let_def)
next
  case True
  have d: "cwd (deferred (cwd w) w') = cwd w" if "dirs w' = dirs w" for w'
    using assms True that by (intro deferred_cwd) simp_all
  have c: "cwd (deferred (cwd w) (snd (CombinedOutput run w' argv))) = cwd w"
    if "dirs w' = dirs w" for w' argv
    using that by (intro d) (simp add: dirs_CombinedOutput)
  show ?thesis
    using True c
    by (simp add: AnalyzeFile_chdir_def Getwd_def Let_def Chdir_def split_beta
             split: sum.split option.split)
qed

text \<open>
  C8. On every return of \<open>AnalyzeFile\<close> after the runner was invoked, the coverage
  profile is removed and the working directory is restored. The code does not remove the
  profile on every return. The first analyzer removes it only after a successful parse:
  when the runner fails, the profile it wrote stays in the working directory. The second
  analyzer removes \<^verbatim>\<open>coverage.out\<close> after it has changed back to the original directory,
  so the profile written in the package directory stays, after a failed and after a
  successful run.
\<close>

theorem AnalyzeFile_leaves_profile:
  "files sampleRepo ''/repo/coverage.out'' = StatNotExist
   \<and> files sampleRepo ''/repo/pkg/coverage.out'' = StatNotExist
   \<and> files (snd (AnalyzeFile failingRun sampleParseFloat sampleRepo ''pkg/calc.go'' (Finite 40)))
        ''/repo/coverage.out'' = StatOk
   \<and> files (snd (AnalyzeFile_chdir failingRun sampleParseFloat sampleRepo ''pkg/calc.go'' (Finite 40)))
        ''/repo/pkg/coverage.out'' = StatOk
   \<and> files (snd (AnalyzeFile_chdir okRun sampleParseFloat sampleRepo ''pkg/calc.go'' (Finite 40)))
        ''/repo/pkg/coverage.out'' = StatOk"
  by code_simp

section \<open>Publishing the tests\<close>

subsection \<open>The file on the branch\<close>

text \<open>
  With a response to the look-up, \<open>createOrUpdateFile\<close> does what is expected of it: on
  404 it creates the file, without SHA; when the file is found it updates it with the
  SHA of the file found; on any other status it returns the error of the look-up.
\<close>

lemma createOrUpdateFile_not_found:
  assumes "GetContents client filePath branchName = (existingFile, Some resp, Some e)"
    and "StatusCode resp = 404"
  shows "\<exists>opts. snd (createOrUpdateFile client enc filePath content branchName)
             = [CallGetContents filePath branchName, CallCreateFile filePath opts]
           \<and> optSHA opts = None \<and> optContent opts = enc content \<and> optBranch opts = Some branchName
           \<and> fst (createOrUpdateFile client enc filePath content branchName)
             = Done (map_option ((@) ''failed to create file: '') (CreateFile client filePath opts))"
  using assms by (auto simp: createOrUpdateFile_def Let_def split: option.splits)

lemma createOrUpdateFile_found:
  assumes "GetContents client filePath branchName = (Some file, resp, None)"
  shows "\<exists>opts. snd (createOrUpdateFile client enc filePath content branchName)
             = [CallGetContents filePath branchName, CallUpdateFile filePath opts]
           \<and> optSHA opts = contentSHA file \<and> optContent opts = enc content
           \<and> optBranch opts = Some branchName
           \<and> fst (createOrUpdateFile client enc filePath content branchName)
             = Done (map_option ((@) ''failed to update file: '') (UpdateFile client filePath opts))"
  using assms by (auto simp: createOrUpdateFile_def Let_def split: option.splits)

lemma createOrUpdateFile_other_status:
  assumes "GetContents client filePath branchName = (existingFile, Some resp, Some e)"
    and "StatusCode resp \<noteq> 404"
  shows "createOrUpdateFile client enc filePath content branchName
           = (Done (Some (''failed to check file existence: '' @ e)),
              [CallGetContents filePath branchName])"
  using assms by (simp add: createOrUpdateFile_def Let_def)

lemma createOrUpdateFile_no_response:
  assumes "GetContents client filePath branchName = (existingFile, None, Some e)"
  shows "createOrUpdateFile client enc filePath content branchName
           = (Panic, [CallGetContents filePath branchName])"
  using assms by (simp add: createOrUpdateFile_def Let_def)

text \<open>
  C5. In the upsert of the file: a look-up that answers not-found leads to a creation
  without SHA, a successful look-up to an update with the SHA of the existing file, and
  every other failure of the look-up is an error returned to the caller. The code does
  not return an error when the look-up fails without a response (the client gives no
  response when the request itself fails): it reads the status through the \<^verbatim>\<open>nil\<close>
  response and panics. The input is the one of the case \<^verbatim>\<open>GetContentsError\<close> of the
  repository's test of this function, which expects the error
  \<^verbatim>\<open>failed to check file existence\<close>.
\<close>

theorem createOrUpdateFile_lookup_failure_panics:
  "createOrUpdateFile
     (sampleClient\<lparr>GetContents := (\<lambda>path ref. (None, None, Some ''get contents failed''))\<rparr>)
     id ''testFile.go'' ''testContent'' ''testBranch''
   = (Panic, [CallGetContents ''testFile.go'' ''testBranch''])"
  by (simp add: createOrUpdateFile_def sampleClient_def)

subsection \<open>The branch\<close>

text \<open>
  With a response to the look-up of the branch, \<open>CreateTestPR\<close> does what is expected of
  it: an existing branch is deleted and then created again from the SHA of the main
  branch, and only a failing deletion is an error there; on 404 the branch is created
  without a deletion; on any other status the error of the look-up is returned.
\<close>

lemma CreateTestPR_existing_branch:
  assumes "GetRef client ''refs/heads/main'' = (Some main, r, None)"
    and "Object main = Some obj"
    and "GetRef client (''refs/heads/'' @ branchName) = (x, resp, None)"
  shows "(DeleteRef client (''refs/heads/'' @ branchName) = None \<longrightarrow>
            (\<exists>rest. snd (CreateTestPR client enc descr originalFile testFileName testContent
                           branchName coverage)
               = [CallGetRef ''refs/heads/main'', CallGetRef (''refs/heads/'' @ branchName),
                  CallDeleteRef (''refs/heads/'' @ branchName),
                  CallCreateRef \<lparr>Ref = Some (''refs/heads/'' @ branchName),
                                 Object = Some \<lparr>objSHA = objSHA obj\<rparr>\<rparr>] @ rest))
       \<and> (\<forall>e. DeleteRef client (''refs/heads/'' @ branchName) = Some e \<longrightarrow>
            CreateTestPR client enc descr originalFile testFileName testContent branchName coverage
               = (Done (Some (''failed to delete existing branch: '' @ e)),
                  [CallGetRef ''refs/heads/main'', CallGetRef (''refs/heads/'' @ branchName),
                   CallDeleteRef (''refs/heads/'' @ branchName)]))"
  using assms
  by (auto simp: CreateTestPR_def checkBranch_def createBranch_def Let_def
           split: option.splits prod.splits outcome.splits)

lemma CreateTestPR_branch_not_found:
  assumes "GetRef client ''refs/heads/main'' = (Some main, r, None)"
    and "Object main = Some obj"
    and "GetRef client (''refs/heads/'' @ branchName) = (x, Some resp, Some e)"
    and "StatusCode resp = 404"
  shows "\<exists>rest. snd (CreateTestPR client enc descr originalFile testFileName testContent
                       branchName coverage)
               = [CallGetRef ''refs/heads/main'', CallGetRef (''refs/heads/'' @ branchName),
                  CallCreateRef \<lparr>Ref = Some (''refs/heads/'' @ branchName),
                                 Object = Some \<lparr>objSHA = objSHA obj\<rparr>\<rparr>] @ rest"
  using assms
  by (auto simp: CreateTestPR_def checkBranch_def createBranch_def Let_def
           split: option.splits prod.splits outcome.splits)

lemma CreateTestPR_branch_other_status:
  assumes "GetRef client ''refs/heads/main'' = (mainRef, r, None)"
    and "GetRef client (''refs/heads/'' @ branchName) = (x, Some resp, Some e)"
    and "StatusCode resp \<noteq> 404"
  shows "CreateTestPR client enc descr originalFile testFileName testContent branchName coverage
           = (Done (Some (''failed to check branch existence: '' @ e)),
              [CallGetRef ''refs/heads/main'', CallGetRef (''refs/heads/'' @ branchName)])"
  using assms
  by (simp add: CreateTestPR_def checkBranch_def Let_def)

text \<open>
  C4. In \<open>CreateTestPR\<close>, an existing branch is deleted before it is created again from
  the head of the default branch, and its existence is not an error; a not-found answer
  to the look-up is the path without error, and every other outcome of the look-up that
  is neither success nor not-found is an error returned for that file. The code does not
  return an error when the look-up of the branch fails without a response (a request
  that fails or runs into the deadline of the context): it reads the status through the
  \<^verbatim>\<open>nil\<close> response and panics, which ends the whole run.
\<close>

theorem CreateTestPR_lookup_failure_panics:
  "CreateTestPR
     (sampleClient\<lparr>GetRef := (\<lambda>ref. if ref = ''refs/heads/main''
                                    then (Some sampleMainRef, Some \<lparr>StatusCode = 200\<rparr>, None)
                                    else (None, None, Some ''context deadline exceeded''))\<rparr>)
     id (\<lambda>file coverage. []) ''pkg/calc.go'' ''pkg/calc_test.go'' ''package calc''
     ''auto-tests-pkg'' (Finite 0)
   = (Panic, [CallGetRef ''refs/heads/main'', CallGetRef ''refs/heads/auto-tests-pkg''])"
  by (simp add: CreateTestPR_def checkBranch_def sampleClient_def)

section \<open>The clean-up of the generated text\<close>

lemma HasPrefix_prefix: "HasPrefix s p \<longleftrightarrow> prefix p s"
proof
  assume "HasPrefix s p"
  then have "s = p @ drop (length p) s"
    by (metis HasPrefix_def append_take_drop_id)
  then show "prefix p s" by (rule prefixI)
next
  assume "prefix p s"
  then show "HasPrefix s p" by (auto simp: prefix_def HasPrefix_def)
qed

lemma HasSuffix_suffix: "HasSuffix s p \<longleftrightarrow> suffix p s"
proof
  assume "HasSuffix s p"
  then have "s = take (length s - length p) s @ p"
    by (metis HasSuffix_def append_take_drop_id)
  then show "suffix p s" by (rule suffixI)
next
  assume "suffix p s"
  then show "HasSuffix s p" by (auto simp: suffix_def HasSuffix_def)
qed

lemma Contains_sublist: "Contains s sub \<longleftrightarrow> sublist sub s"
proof (induction s)
  case Nil
  then show ?case by (simp add: Contains_def)
next
  case (Cons c cs)
  then show ?case
    by (auto simp: Contains_def HasPrefix_prefix sublist_Cons_right)
qed

lemma sublist_junction:
  assumes "c \<notin> set sub"
  shows "sublist sub (x @ c # y) \<longleftrightarrow> sublist sub x \<or> sublist sub y"
proof
  assume "sublist sub (x @ c # y)"
  then consider "sublist sub x" | "prefix sub (c # y)" | "sublist sub y"
    | xs1 xs2 where "sub = xs1 @ xs2" "suffix xs1 x" "prefix xs2 (c # y)"
    unfolding sublist_append sublist_Cons_right by blast
  then show "sublist sub x \<or> sublist sub y"
  proof cases
    case 2
    with assms have "sub = []" by (cases sub) auto
    then show ?thesis by simp
  next
    case (4 xs1 xs2)
    with assms have "xs2 = []" by (cases xs2) auto
    with 4 show ?thesis by auto
  qed auto
next
  assume "sublist sub x \<or> sublist sub y"
  then show "sublist sub (x @ c # y)"
    by (auto simp: sublist_append sublist_Cons_right)
qed

lemma sublist_set: "sublist sub s \<Longrightarrow> set sub \<subseteq> set s"
  by (rule set_mono_sublist)

lemma Index_split: "Index s sep = Some i \<Longrightarrow> s = take i s @ sep @ drop (i + length sep) s"
proof (induction s arbitrary: i)
  case Nil
  then show ?case by (simp split: if_splits)
next
  case (Cons c cs)
  show ?case
  proof (cases "HasPrefix (c # cs) sep")
    case True
    with Cons.prems have "i = 0" by simp
    with True show ?thesis
      by (metis HasPrefix_def add_0 append_Nil append_take_drop_id take_0)
  next
    case False
    with Cons.prems obtain j where j: "Index cs sep = Some j" "i = Suc j" by auto
    from Cons.IH [OF j(1)] j(2) show ?thesis by simp
  qed
qed

lemma joinLines_Cons: "joinLines (l # ls) = l @ ''\<newline>'' @ joinLines ls"
  by (simp add: joinLines_def)

lemma joinLines_append: "joinLines (xs @ ys) = joinLines xs @ joinLines ys"
  by (simp add: joinLines_def)

lemma joinLines_Split: "joinLines (Split s ''\<newline>'') = s @ ''\<newline>''"
proof (induction s "''\<newline>''" rule: Split.induct)
  case (1 s)
  show ?case
  proof (cases "Index s ''\<newline>''")
    case None
    then show ?thesis by (subst Split.simps) (simp add: joinLines_def)
  next
    case (Some i)
    define a where "a = take i s"
    define b where "b = drop (i + length ''\<newline>'') s"
    have s: "s = a @ ''\<newline>'' @ b"
      unfolding a_def b_def using Some by (rule Index_split)
    have "Split s ''\<newline>'' = a # Split b ''\<newline>''"
      unfolding a_def b_def using Some by (subst Split.simps) simp
    moreover have "joinLines (Split b ''\<newline>'') = b @ ''\<newline>''"
      unfolding b_def using 1 Some by simp
    ultimately show ?thesis
      by (simp add: joinLines_Cons s)
  qed
qed


lemma fence_replicate: "fence = replicate 3 backtick"
  by (simp add: fence_def backtick_def numeral_3_eq_3)

lemma prefix_replicate_leadTicks: "prefix (replicate n backtick) s \<longleftrightarrow> n \<le> leadTicks s"
proof (induction s arbitrary: n)
  case Nil
  then show ?case by (simp add: leadTicks_def)
next
  case (Cons c cs)
  then show ?case by (cases n) (auto simp: leadTicks_def)
qed

lemma leadTicks_ReplaceAll: "leadTicks (ReplaceAll s fence []) = leadTicks s mod 3"
proof (induction s fence "[] :: string" rule: ReplaceAll.induct)
  case (1 s)
  show ?case
  proof (cases "s = []")
    case True
    then show ?thesis by (simp add: leadTicks_def)
  next
    case False
    note ne = this
    have f: "fence \<noteq> []" by (simp add: fence_def)
    show ?thesis
    proof (cases "HasPrefix s fence")
      case True
      then obtain t where s: "s = fence @ t" by (auto simp: HasPrefix_prefix prefix_def)
      have "ReplaceAll s fence [] = ReplaceAll t fence []"
        using ne f True s by (subst ReplaceAll.simps) simp
      moreover have "leadTicks (ReplaceAll t fence []) = leadTicks t mod 3"
        using 1(1) [OF _ True] ne f s by simp
      moreover have "leadTicks s = 3 + leadTicks t"
        unfolding s by (simp add: fence_def leadTicks_def backtick_def)
      ultimately show ?thesis by simp
    next
      case False
      obtain c t where s: "s = c # t" using ne by (cases s) auto
      have r: "ReplaceAll s fence [] = c # ReplaceAll t fence []"
        using ne f False s by (subst ReplaceAll.simps) simp
      have ih: "leadTicks (ReplaceAll t fence []) = leadTicks t mod 3"
        using 1(2) [OF _ False] ne f s by simp
      from False have "\<not> 3 \<le> leadTicks s"
        by (simp add: HasPrefix_prefix fence_replicate prefix_replicate_leadTicks)
      then show ?thesis
        using r ih s by (auto simp: leadTicks_def)
    qed
  qed
qed

lemma ReplaceAll_fence_free: "\<not> sublist fence (ReplaceAll s fence [])"
proof (induction s fence "[] :: string" rule: ReplaceAll.induct)
  case (1 s)
  have f: "fence \<noteq> []" by (simp add: fence_def)
  show ?case
  proof (cases "s = []")
    case True
    then show ?thesis by (simp add: fence_def)
  next
    case False
    note ne = this
    show ?thesis
    proof (cases "HasPrefix s fence")
      case True
      then have "ReplaceAll s fence [] = ReplaceAll (drop (length fence) s) fence []"
        using ne f by (subst ReplaceAll.simps) simp
      with 1(1) [OF _ True] ne f show ?thesis by simp
    next
      case False
      obtain c t where s: "s = c # t" using ne by (cases s) auto
      have r: "ReplaceAll s fence [] = c # ReplaceAll t fence []"
        using ne f False s by (subst ReplaceAll.simps) simp
      have ih: "\<not> sublist fence (ReplaceAll t fence [])"
        using 1(2) [OF _ False] ne f s by simp
      have "leadTicks (ReplaceAll s fence []) < 3"
        by (simp add: leadTicks_ReplaceAll)
      then have "\<not> prefix fence (ReplaceAll s fence [])"
        by (simp add: fence_replicate prefix_replicate_leadTicks)
      with ih r show ?thesis by (simp add: sublist_Cons_right)
    qed
  qed
qed

lemma spaceRunes_nonempty: "r \<in> set spaceRunes \<Longrightarrow> r \<noteq> []"
  by (auto simp: spaceRunes_def)

lemma spaceRunes_bytes: "r \<in> set spaceRunes \<Longrightarrow> c \<in> set r \<Longrightarrow> spaceByte c"
  unfolding spaceByte_def by auto

lemma leadingSpace_rune:
  assumes "leadingSpace s \<noteq> 0"
  shows "\<exists>r \<in> set spaceRunes. s = r @ drop (leadingSpace s) s"
proof -
  from assms obtain r where f: "find (HasPrefix s) spaceRunes = Some r" and l: "leadingSpace s = length r"
    by (auto simp: leadingSpace_def split: option.splits)
  from f have "r \<in> set spaceRunes" and "HasPrefix s r"
    by (auto simp: find_Some_iff)
  then show ?thesis
    using l by (auto simp: HasPrefix_prefix prefix_def)
qed

lemma trailingSpace_rune:
  assumes "trailingSpace s \<noteq> 0"
  shows "\<exists>r \<in> set spaceRunes. s = take (length s - trailingSpace s) s @ r"
proof -
  from assms obtain r where f: "find (HasSuffix s) spaceRunes = Some r" and l: "trailingSpace s = length r"
    by (auto simp: trailingSpace_def split: option.splits)
  from f have "r \<in> set spaceRunes" and "HasSuffix s r"
    by (auto simp: find_Some_iff)
  then show ?thesis
    using l by (auto simp: HasSuffix_suffix suffix_def)
qed

lemma TrimLeft_decomp: "\<exists>a. s = a @ TrimLeft s \<and> (\<forall>c \<in> set a. spaceByte c)"
proof (induction s rule: TrimLeft.induct)
  case (1 s)
  show ?case
  proof (cases "leadingSpace s = 0")
    case True
    then show ?thesis by (subst TrimLeft.simps) simp
  next
    case False
    from leadingSpace_rune [OF False] obtain r
      where r: "r \<in> set spaceRunes" and s: "s = r @ drop (leadingSpace s) s" by blast
    from 1 [OF False] obtain a where a: "drop (leadingSpace s) s = a @ TrimLeft (drop (leadingSpace s) s)"
      and sp: "\<forall>c \<in> set a. spaceByte c" by blast
    have t: "TrimLeft s = TrimLeft (drop (leadingSpace s) s)"
      using False by (subst TrimLeft.simps) simp
    have "s = (r @ a) @ TrimLeft s"
      using s a t by (metis append.assoc)
    moreover have "\<forall>c \<in> set (r @ a). spaceByte c"
      using sp r spaceRunes_bytes by auto
    ultimately show ?thesis by blast
  qed
qed

lemma TrimRight_decomp: "\<exists>b. s = TrimRight s @ b \<and> (\<forall>c \<in> set b. spaceByte c)"
proof (induction s rule: TrimRight.induct)
  case (1 s)
  show ?case
  proof (cases "trailingSpace s = 0")
    case True
    then show ?thesis by (subst TrimRight.simps) simp
  next
    case False
    define s' where "s' = take (length s - trailingSpace s) s"
    from trailingSpace_rune [OF False] obtain r
      where r: "r \<in> set spaceRunes" and s: "s = s' @ r" unfolding s'_def by blast
    from 1 [OF False] obtain b where b: "s' = TrimRight s' @ b"
      and sp: "\<forall>c \<in> set b. spaceByte c" unfolding s'_def by blast
    have t: "TrimRight s = TrimRight s'"
      unfolding s'_def using False by (subst TrimRight.simps) simp
    have "s = TrimRight s @ (b @ r)"
      using s b t by (metis append.assoc)
    moreover have "\<forall>c \<in> set (b @ r). spaceByte c"
      using sp r spaceRunes_bytes by auto
    ultimately show ?thesis by blast
  qed
qed

lemma TrimSpace_decomp:
  "\<exists>a b. s = a @ TrimSpace s @ b \<and> (\<forall>c \<in> set a. spaceByte c) \<and> (\<forall>c \<in> set b. spaceByte c)"
proof -
  from TrimLeft_decomp [of s] obtain a where a: "s = a @ TrimLeft s" "\<forall>c \<in> set a. spaceByte c"
    by blast
  from TrimRight_decomp [of "TrimLeft s"] obtain b
    where b: "TrimLeft s = TrimSpace s @ b" "\<forall>c \<in> set b. spaceByte c"
    unfolding TrimSpace_def by blast
  from a b show ?thesis by metis
qed

lemma sublist_TrimSpace: "sublist (TrimSpace s) s"
  using TrimSpace_decomp [of s] unfolding sublist_def by blast

lemma TrimLeft_id:
  assumes "s \<noteq> []" and "\<not> spaceByte (hd s)"
  shows "TrimLeft s = s"
proof -
  from TrimLeft_decomp [of s] obtain a where a: "s = a @ TrimLeft s" "\<forall>c \<in> set a. spaceByte c"
    by blast
  have "a = []"
  proof (rule ccontr)
    assume "a \<noteq> []"
    then have "hd s = hd a" using a(1) by (metis hd_append2)
    with \<open>a \<noteq> []\<close> a(2) assms(2) show False by (metis hd_in_set)
  qed
  with a(1) show ?thesis by simp
qed

text \<open>Trimming keeps everything up to a byte that is not white space, when the first byte is none.\<close>

lemma TrimSpace_keeps:
  assumes "s = x @ c # y" and "\<not> spaceByte (hd s)" and "\<not> spaceByte c"
  shows "\<exists>y' z. TrimSpace s = x @ c # y' \<and> y = y' @ z"
proof -
  have "s \<noteq> []" using assms(1) by simp
  then have l: "TrimLeft s = s" using assms(2) by (rule TrimLeft_id)
  from TrimRight_decomp [of s] l obtain b where b: "s = TrimSpace s @ b" "\<forall>ch \<in> set b. spaceByte ch"
    unfolding TrimSpace_def by auto
  from b(1) assms(1) have "x @ c # y = TrimSpace s @ b" by simp
  then obtain u where "(x = TrimSpace s @ u \<and> u @ c # y = b) \<or> (x @ u = TrimSpace s \<and> c # y = u @ b)"
    unfolding append_eq_append_conv2 by blast
  then show ?thesis
  proof
    assume "x = TrimSpace s @ u \<and> u @ c # y = b"
    then have "c \<in> set b" by auto
    with b(2) assms(3) show ?thesis by blast
  next
    assume h: "x @ u = TrimSpace s \<and> c # y = u @ b"
    show ?thesis
    proof (cases u)
      case Nil
      with h have "c \<in> set b" by (metis append_Nil list.set_intros(1))
      with b(2) assms(3) show ?thesis by blast
    next
      case (Cons d u')
      with h have "d = c" and "y = u' @ b" by auto
      moreover from h Cons \<open>d = c\<close> have "TrimSpace s = x @ c # u'" by simp
      ultimately show ?thesis by blast
    qed
  qed
qed

lemma sublist_drop_left:
  assumes "sublist sub (a @ t)" and "\<forall>c \<in> set a. P c" and "sub \<noteq> []" and "\<not> P (hd sub)"
  shows "sublist sub t"
proof -
  from assms(1) consider "sublist sub a" | "sublist sub t"
    | s1 s2 where "sub = s1 @ s2" "suffix s1 a" "prefix s2 t"
    unfolding sublist_append by blast
  then show ?thesis
  proof cases
    case 1
    then have "set sub \<subseteq> set a" by (rule set_mono_sublist)
    with assms(2,3,4) show ?thesis by (metis hd_in_set subsetD)
  next
    case 2
    then show ?thesis .
  next
    case (3 s1 s2)
    have "s1 = []"
    proof (rule ccontr)
      assume n: "s1 \<noteq> []"
      then have "hd sub = hd s1" using 3(1) by simp
      moreover have "set s1 \<subseteq> set a" using 3(2) by (auto simp: suffix_def)
      ultimately show False using n assms(2,4) by (metis hd_in_set subsetD)
    qed
    with 3 show ?thesis by auto
  qed
qed

lemma sublist_drop_right:
  assumes "sublist sub (t @ b)" and "\<forall>c \<in> set b. P c" and "sub \<noteq> []" and "\<not> P (last sub)"
  shows "sublist sub t"
proof -
  have "sublist (rev sub) (rev b @ rev t)"
    using assms(1) by (metis rev_append sublist_rev)
  moreover have "\<forall>c \<in> set (rev b). P c" using assms(2) by simp
  moreover have "rev sub \<noteq> []" using assms(3) by simp
  moreover have "\<not> P (hd (rev sub))" using assms(3,4) by (simp add: hd_rev)
  ultimately have "sublist (rev sub) (rev t)" by (rule sublist_drop_left)
  then show ?thesis by simp
qed

lemma sublist_TrimSpace_keeps:
  assumes "sublist sub s" and "sub \<noteq> []" and "\<not> spaceByte (hd sub)" and "\<not> spaceByte (last sub)"
  shows "sublist sub (TrimSpace s)"
proof -
  from TrimSpace_decomp [of s] obtain a b where s: "s = a @ TrimSpace s @ b"
    and a: "\<forall>c \<in> set a. spaceByte c" and b: "\<forall>c \<in> set b. spaceByte c" by blast
  from assms(1) s have "sublist sub (a @ TrimSpace s @ b)" by simp
  then have "sublist sub (TrimSpace s @ b)"
    using a assms(2,3) by (rule sublist_drop_left)
  then show ?thesis
    using b assms(2,4) by (rule sublist_drop_right)
qed

lemma insertImport_added: "insertImport lines True result = result @ joinLines lines"
  by (induction lines arbitrary: result) (simp_all add: joinLines_def)

lemma insertImport_no_package:
  "\<forall>l \<in> set lines. \<not> isPackageLine l \<Longrightarrow> insertImport lines added result = result @ joinLines lines"
  by (induction lines arbitrary: result) (simp_all add: joinLines_def isPackageLine_def)

lemma insertImport_first:
  assumes "\<forall>x \<in> set pre. \<not> isPackageLine x" and "isPackageLine l"
  shows "insertImport (pre @ l # post) False result
           = result @ joinLines pre @ l @ ''\<newline>'' @ importText @ joinLines post"
  using assms
proof (induction pre arbitrary: result)
  case Nil
  then show ?case
    by (simp add: insertImport_added isPackageLine_def importText_def joinLines_def)
next
  case (Cons x pre)
  then show ?case by (simp add: isPackageLine_def joinLines_Cons)
qed

lemma cleanup_unfold:
  "cleanupGeneratedCode raw name imps =
     TrimSpace
       (let t = (if Contains (stripFences raw) ''package '' then stripFences raw
                 else ''package '' @ name @ ''\<newline>\<newline>'' @ stripFences raw)
        in if Contains t testingRef then t else insertImport (Split t ''\<newline>'') False [])"
  by (simp add: cleanupGeneratedCode_def stripFences_def Let_def)

lemma stripFences_free: "\<not> sublist fence (stripFences raw)"
  unfolding stripFences_def using ReplaceAll_fence_free [of "ReplaceAll raw ''```go'' []"]
  by (simp add: fence_def)

lemma nl_notin_fence: "CHR 0x0A \<notin> set fence"
  by (simp add: fence_def)

lemma fence_free_no_backtick: "CHR 0x60 \<notin> set s \<Longrightarrow> \<not> sublist fence s"
  using set_mono_sublist [of fence s] by (auto simp: fence_def)

lemma fence_free_importLine: "\<not> sublist fence (''import '' @ testingRef)"
  by (rule fence_free_no_backtick) (simp add: testingRef_def)

lemma insertImport_fence_free:
  assumes "\<not> sublist fence t"
  shows "\<not> sublist fence (insertImport (Split t ''\<newline>'') False [])"
proof (cases "\<forall>l \<in> set (Split t ''\<newline>''). \<not> isPackageLine l")
  case True
  then have "insertImport (Split t ''\<newline>'') False [] = t @ ''\<newline>''"
    by (simp add: insertImport_no_package joinLines_Split)
  then show ?thesis
    using assms sublist_junction [OF nl_notin_fence, of t "[]"] by (simp add: fence_def)
next
  case False
  then have "\<exists>x \<in> set (Split t ''\<newline>''). isPackageLine x" by blast
  from split_list_first_prop [OF this]
  obtain pre l post where sp: "Split t ''\<newline>'' = pre @ l # post"
    and pre: "\<forall>x \<in> set pre. \<not> isPackageLine x" and l: "isPackageLine l"
    by blast
  have "joinLines (pre @ l # post) = t @ ''\<newline>''"
    using joinLines_Split [of t] sp by simp
  then have j: "(joinLines pre @ l) @ CHR 0x0A # joinLines post = t @ CHR 0x0A # []"
    by (simp add: joinLines_append joinLines_Cons)
  have "\<not> sublist fence (t @ CHR 0x0A # [])"
    using assms sublist_junction [OF nl_notin_fence, of t "[]"] by (simp add: fence_def)
  with j have x: "\<not> sublist fence (joinLines pre @ l)" and y: "\<not> sublist fence (joinLines post)"
    using sublist_junction [OF nl_notin_fence, of "joinLines pre @ l" "joinLines post"] by auto
  have "insertImport (Split t ''\<newline>'') False []
      = (joinLines pre @ l) @ CHR 0x0A # ([] @ CHR 0x0A # ((''import '' @ testingRef) @ CHR 0x0A # joinLines post))"
    unfolding sp insertImport_first [OF pre l] by (simp add: importText_def)
  moreover have "\<not> sublist fence
      ((joinLines pre @ l) @ CHR 0x0A # ([] @ CHR 0x0A # ((''import '' @ testingRef) @ CHR 0x0A # joinLines post)))"
    unfolding sublist_junction [OF nl_notin_fence]
    using x y fence_free_importLine by (simp add: fence_def)
  ultimately show ?thesis by simp
qed

lemma sublist_trans: "sublist a b \<Longrightarrow> sublist b c \<Longrightarrow> sublist a c"
proof -
  assume "sublist a b" and "sublist b c"
  then obtain p1 s1 p2 s2 where "b = p1 @ a @ s1" and "c = p2 @ b @ s2"
    unfolding sublist_def by blast
  then have "c = (p2 @ p1) @ a @ (s1 @ s2)" by simp
  then show ?thesis unfolding sublist_def by blast
qed

lemma cleanup_fence_free:
  assumes "CHR 0x60 \<notin> set name"
  shows "\<not> Contains (cleanupGeneratedCode raw name imps) ''```''"
proof -
  define t where "t = (if Contains (stripFences raw) ''package '' then stripFences raw
                 else ''package '' @ name @ ''\<newline>\<newline>'' @ stripFences raw)"
  have t: "\<not> sublist fence t"
  proof (cases "Contains (stripFences raw) ''package ''")
    case True
    then show ?thesis by (simp add: t_def stripFences_free)
  next
    case False
    define p where "p = ''package '' @ name"
    have teq: "t = p @ CHR 0x0A # ([] @ CHR 0x0A # stripFences raw)"
      using False by (simp add: t_def p_def)
    have "\<not> sublist fence p"
      unfolding p_def using assms by (intro fence_free_no_backtick) simp
    moreover have "\<not> sublist fence []" by (simp add: fence_def)
    moreover have "sublist fence t \<longleftrightarrow>
        sublist fence p \<or> sublist fence [] \<or> sublist fence (stripFences raw)"
      unfolding teq sublist_junction [OF nl_notin_fence] by (rule refl)
    ultimately show ?thesis
      using stripFences_free [of raw] by simp
  qed
  define u where "u = (if Contains t testingRef then t else insertImport (Split t ''\<newline>'') False [])"
  have "\<not> sublist fence u"
    using t insertImport_fence_free [OF t] by (simp add: u_def)
  moreover have "cleanupGeneratedCode raw name imps = TrimSpace u"
    by (simp add: cleanup_unfold t_def u_def Let_def)
  ultimately show ?thesis
    using sublist_trans [OF _ sublist_TrimSpace [of u], of fence]
    by (auto simp: Contains_sublist fence_def)
qed

lemma TrimRight_id:
  assumes "s \<noteq> []" and "\<not> spaceByte (last s)"
  shows "TrimRight s = s"
proof -
  from TrimRight_decomp [of s] obtain b where b: "s = TrimRight s @ b" "\<forall>c \<in> set b. spaceByte c"
    by blast
  have "b = []"
  proof (rule ccontr)
    assume "b \<noteq> []"
    then have "last s = last b" using b(1) by (metis last_appendR)
    with \<open>b \<noteq> []\<close> b(2) assms(2) show False by (metis last_in_set)
  qed
  with b(1) show ?thesis by simp
qed

lemma TrimSpace_id:
  assumes "s \<noteq> []" and "\<not> spaceByte (hd s)" and "\<not> spaceByte (last s)"
  shows "TrimSpace s = s"
  using assms by (simp add: TrimSpace_def TrimLeft_id TrimRight_id)

lemma Index_first_char: "c \<notin> set x \<Longrightarrow> Index (x @ c # y) [c] = Some (length x)"
  by (induction x) (auto simp: HasPrefix_def)

lemma Split_first_line:
  assumes "CHR 0x0A \<notin> set x"
  shows "Split (x @ CHR 0x0A # y) ''\<newline>'' = x # Split y ''\<newline>''"
  using Index_first_char [OF assms, of y] by (subst Split.simps) simp

lemma not_space_quote: "\<not> spaceByte (CHR 0x22)"
  by (simp add: spaceByte_def spaceRunes_def)

lemma not_space_p: "\<not> spaceByte (CHR ''p'')"
  by (simp add: spaceByte_def spaceRunes_def)

lemma nl_notin_packageWord: "CHR 0x0A \<notin> set packageWord"
  by (simp add: packageWord_def)

lemma nl_notin_testingRef: "CHR 0x0A \<notin> set testingRef"
  by (simp add: testingRef_def)

lemma packageWord_nonempty: "\<not> sublist packageWord []"
  by (simp add: packageWord_def)

lemma testingRef_nonempty: "\<not> sublist testingRef []"
  by (simp add: testingRef_def)

lemma packageWord_not_in_import: "\<not> sublist packageWord (''import '' @ testingRef)"
  unfolding packageWord_def testingRef_def by (simp add: sublist_Cons_right)

lemma testingRef_snoc: "testingRef = (CHR 0x22 # ''testing'') @ [CHR 0x22]"
  by (simp add: testingRef_def)

lemma plain_package_line:
  assumes "plainName name"
  shows "isPackageLine (''package '' @ name)"
proof -
  have "TrimSpace (''package '' @ name) = ''package '' @ name"
    using assms by (simp add: plainName_def)
  then show ?thesis by (simp add: isPackageLine_def HasPrefix_def)
qed

lemma plainName_no_space_end:
  assumes "name \<noteq> []" and "\<not> spaceByte (last name)" and "CHR 0x0A \<notin> set name"
    and "CHR 0x22 \<notin> set name" and "CHR 0x60 \<notin> set name"
  shows "plainName name"
proof -
  have "TrimSpace (''package '' @ name) = ''package '' @ name"
    using assms(1,2) by (intro TrimSpace_id) (simp_all add: not_space_p)
  with assms(3-5) show ?thesis by (simp add: plainName_def)
qed

lemma no_testingRef_in_package_line:
  assumes "plainName name"
  shows "\<not> sublist testingRef (''package '' @ name)"
proof
  assume "sublist testingRef (''package '' @ name)"
  then have "set testingRef \<subseteq> set (''package '' @ name)" by (rule set_mono_sublist)
  then have "CHR 0x22 \<in> set (''package '' @ name)" by (auto simp: testingRef_def)
  with assms show False by (simp add: plainName_def)
qed

lemma cleanup_adds_package:
  assumes name: "plainName name" and nopk: "\<not> Contains (stripFences raw) ''package ''"
  shows "\<exists>rest. cleanupGeneratedCode raw name imps = ''package '' @ name @ ''\<newline>'' @ rest
           \<and> \<not> Contains rest ''package ''
           \<and> Contains (cleanupGeneratedCode raw name imps) testingRef
           \<and> (\<not> Contains (stripFences raw) testingRef
                \<longrightarrow> HasPrefix rest (''\<newline>import '' @ testingRef))"
proof -
  define s where "s = stripFences raw"
  define p where "p = ''package '' @ name"
  define q where "q = CHR 0x22"
  define tq where "tq = q # ''testing''"
  have tr: "testingRef = tq @ [q]" by (simp add: testingRef_def tq_def q_def)
  have nos: "\<not> sublist packageWord s" using nopk by (simp add: s_def Contains_sublist packageWord_def)
  have hdp: "hd p = CHR ''p''" by (simp add: p_def)
  have nlp: "CHR 0x0A \<notin> set p" using name by (simp add: p_def plainName_def)
  have pline: "isPackageLine p" unfolding p_def using name by (rule plain_package_line)
  have notr_p: "\<not> sublist testingRef p"
    unfolding p_def using name by (rule no_testingRef_in_package_line)
  define t where "t = p @ CHR 0x0A # ([] @ CHR 0x0A # s)"
  have out: "cleanupGeneratedCode raw name imps =
      TrimSpace (if Contains t testingRef then t else insertImport (Split t ''\<newline>'') False [])"
    using nopk by (simp add: cleanup_unfold s_def t_def p_def Let_def)
  have ct: "Contains t testingRef \<longleftrightarrow> sublist testingRef s"
    unfolding Contains_sublist t_def sublist_junction [OF nl_notin_testingRef]
    using notr_p testingRef_nonempty by simp
  have nl_s: "\<not> sublist packageWord ([] @ CHR 0x0A # s)"
    unfolding sublist_junction [OF nl_notin_packageWord] using nos packageWord_nonempty by simp
  show ?thesis
  proof (cases "sublist testingRef s")
    case True
    then obtain a b where s: "s = a @ testingRef @ b" unfolding sublist_def by blast
    define x where "x = p @ CHR 0x0A # CHR 0x0A # a @ tq"
    have teq: "t = x @ q # b" by (simp add: t_def x_def s tr)
    have "\<not> spaceByte (hd t)" using hdp by (simp add: t_def p_def not_space_p)
    from TrimSpace_keeps [OF teq this] obtain y' z
      where k: "TrimSpace t = x @ q # y'" and b: "b = y' @ z"
      using not_space_quote by (auto simp: q_def)
    define rest where "rest = CHR 0x0A # a @ testingRef @ y'"
    have o: "cleanupGeneratedCode raw name imps = ''package '' @ name @ ''\<newline>'' @ rest"
      using out ct True k by (simp add: x_def rest_def p_def tr)
    have "[] @ CHR 0x0A # s = rest @ z" by (simp add: rest_def s b)
    then have "sublist rest ([] @ CHR 0x0A # s)" by (metis prefixI prefix_imp_sublist)
    then have r: "\<not> sublist packageWord rest" using nl_s sublist_trans by blast
    have "cleanupGeneratedCode raw name imps
        = (''package '' @ name @ ''\<newline>'' @ CHR 0x0A # a) @ testingRef @ y'"
      using o by (simp add: rest_def)
    then have "sublist testingRef (cleanupGeneratedCode raw name imps)"
      by (simp only: sublist_appendI)
    with o r True show ?thesis
      by (auto simp: Contains_sublist packageWord_def s_def)
  next
    case False
    have sp: "Split t ''\<newline>'' = p # Split ([] @ CHR 0x0A # s) ''\<newline>''"
      unfolding t_def using nlp by (rule Split_first_line)
    have u: "insertImport (Split t ''\<newline>'') False []
        = p @ ''\<newline>'' @ importText @ (([] @ CHR 0x0A # s) @ ''\<newline>'')"
      unfolding sp using pline
      by (simp add: isPackageLine_def insertImport_added joinLines_Split importText_def)
    define x where "x = p @ CHR 0x0A # CHR 0x0A # ''import '' @ tq"
    define y where "y = CHR 0x0A # CHR 0x0A # s @ [CHR 0x0A]"
    have ueq: "insertImport (Split t ''\<newline>'') False [] = x @ q # y"
      unfolding u by (simp add: importText_def x_def y_def tr)
    have "\<not> spaceByte (hd (insertImport (Split t ''\<newline>'') False []))"
      unfolding u using hdp by (simp add: p_def not_space_p)
    from TrimSpace_keeps [OF ueq this] obtain y' z
      where k: "TrimSpace (insertImport (Split t ''\<newline>'') False []) = x @ q # y'" and yz: "y = y' @ z"
      using not_space_quote by (auto simp: q_def)
    define rest where "rest = (CHR 0x0A # ''import '' @ testingRef) @ y'"
    have o: "cleanupGeneratedCode raw name imps = ''package '' @ name @ ''\<newline>'' @ rest"
      using out ct False k by (simp add: x_def rest_def p_def tr)
    have "[] @ CHR 0x0A # ((''import '' @ testingRef) @ CHR 0x0A # ([] @ CHR 0x0A # (s @ CHR 0x0A # [])))
        = rest @ z"
      using yz by (simp add: rest_def y_def)
    then have "sublist rest
        ([] @ CHR 0x0A # ((''import '' @ testingRef) @ CHR 0x0A # ([] @ CHR 0x0A # (s @ CHR 0x0A # []))))"
      by (metis prefixI prefix_imp_sublist)
    moreover have "\<not> sublist packageWord
        ([] @ CHR 0x0A # ((''import '' @ testingRef) @ CHR 0x0A # ([] @ CHR 0x0A # (s @ CHR 0x0A # []))))"
      unfolding sublist_junction [OF nl_notin_packageWord]
      using nos packageWord_nonempty packageWord_not_in_import by simp
    ultimately have r: "\<not> sublist packageWord rest" using sublist_trans by blast
    have "cleanupGeneratedCode raw name imps
        = (''package '' @ name @ ''\<newline>'' @ CHR 0x0A # ''import '') @ testingRef @ y'"
      using o by (simp add: rest_def)
    then have "sublist testingRef (cleanupGeneratedCode raw name imps)"
      by (simp only: sublist_appendI)
    moreover have "HasPrefix rest (''\<newline>import '' @ testingRef)"
      by (simp add: rest_def HasPrefix_prefix)
    ultimately show ?thesis
      using o r by (auto simp: Contains_sublist packageWord_def)
  qed
qed

lemma testingRef_keeps:
  assumes "sublist testingRef u"
  shows "sublist testingRef (TrimSpace u)"
  using assms
  by (rule sublist_TrimSpace_keeps) (simp_all add: testingRef_def not_space_quote)

lemma cleanup_keeps_package:
  assumes pkc: "Contains (stripFences raw) ''package ''"
  shows "(Contains (stripFences raw) testingRef \<longrightarrow>
            cleanupGeneratedCode raw name imps = TrimSpace (stripFences raw)
          \<and> Contains (cleanupGeneratedCode raw name imps) testingRef)
       \<and> (\<not> Contains (stripFences raw) testingRef \<longrightarrow>
            (\<forall>pre l post.
               Split (stripFences raw) ''\<newline>'' = pre @ l # post
               \<and> (\<forall>x \<in> set pre. \<not> isPackageLine x) \<and> isPackageLine l \<longrightarrow>
                 cleanupGeneratedCode raw name imps
                   = TrimSpace (joinLines pre @ l @ ''\<newline>'' @ importText @ joinLines post)
               \<and> Contains (cleanupGeneratedCode raw name imps) testingRef)
          \<and> ((\<forall>x \<in> set (Split (stripFences raw) ''\<newline>''). \<not> isPackageLine x) \<longrightarrow>
                 cleanupGeneratedCode raw name imps = TrimSpace (stripFences raw @ ''\<newline>'')))"
proof -
  define s where "s = stripFences raw"
  have out: "cleanupGeneratedCode raw name imps =
      TrimSpace (if Contains s testingRef then s else insertImport (Split s ''\<newline>'') False [])"
    using pkc by (simp add: cleanup_unfold s_def Let_def)
  have a: "cleanupGeneratedCode raw name imps = TrimSpace s
      \<and> Contains (cleanupGeneratedCode raw name imps) testingRef"
    if "Contains s testingRef"
    using that out testingRef_keeps [of s] by (simp add: Contains_sublist)
  have b: "cleanupGeneratedCode raw name imps
             = TrimSpace (joinLines pre @ l @ ''\<newline>'' @ importText @ joinLines post)
         \<and> Contains (cleanupGeneratedCode raw name imps) testingRef"
    if n: "\<not> Contains s testingRef" and sp: "Split s ''\<newline>'' = pre @ l # post"
      and pre: "\<forall>x \<in> set pre. \<not> isPackageLine x" and l: "isPackageLine l"
    for pre l post
  proof -
    define u where "u = joinLines pre @ l @ ''\<newline>'' @ importText @ joinLines post"
    have o: "cleanupGeneratedCode raw name imps = TrimSpace u"
      using out n sp insertImport_first [OF pre l, of post "[]"] by (simp add: u_def)
    have "u = (joinLines pre @ l @ ''\<newline>'' @ ''\<newline>import '') @ testingRef @ (''\<newline>'' @ joinLines post)"
      by (simp add: u_def importText_def)
    then have "sublist testingRef u" by (simp only: sublist_appendI)
    then have "sublist testingRef (TrimSpace u)" by (rule testingRef_keeps)
    with o show ?thesis by (simp add: Contains_sublist u_def)
  qed
  have c: "cleanupGeneratedCode raw name imps = TrimSpace (s @ ''\<newline>'')"
    if "\<not> Contains s testingRef" and "\<forall>x \<in> set (Split s ''\<newline>''). \<not> isPackageLine x"
    using that out by (simp add: insertImport_no_package joinLines_Split)
  from a b c show ?thesis unfolding s_def by blast
qed

lemma plainName_main: "plainName ''main''"
  by (rule plainName_no_space_end) (simp_all add: spaceByte_def spaceRunes_def)

text \<open>
  So much the clean-up achieves: no fence marker is left (\<open>cleanup_fence_free\<close>); a text
  in which \<^verbatim>\<open>package \<close> does not occur gets the clause and, where it was missing, the
  import right after it (\<open>cleanup_adds_package\<close>); a text in which \<^verbatim>\<open>package \<close> occurs is
  given the import after its first line that starts with \<^verbatim>\<open>package \<close>
  (\<open>cleanup_keeps_package\<close>). For instance:
\<close>

lemma cleanupGeneratedCode_fenced:
  "cleanupGeneratedCode ''```go\<newline>func TestExample() {}\<newline>```'' ''main'' []
     = ''package main\<newline>\<newline>import '' @ testingRef @ ''\<newline>\<newline>\<newline>func TestExample() {}''"
  by code_simp

lemma cleanupGeneratedCode_plain_comment:
  "cleanupGeneratedCode ''// Tests for calc\<newline>func TestAdd(t *testing.T) {}'' ''calc'' []
     = ''package calc\<newline>\<newline>import '' @ testingRef
       @ ''\<newline>\<newline>// Tests for calc\<newline>func TestAdd(t *testing.T) {}''"
  by code_simp

text \<open>
  C3. The clean-up is to ensure a package declaration and the import of the testing
  package (\<^verbatim>\<open>Ensure proper package declaration\<close> and \<^verbatim>\<open>Ensure testing import is present\<close>
  in the source), and it decides both by a search for the substring \<^verbatim>\<open>package \<close>. A
  generated text that has this substring only in a comment gets no package clause; and
  as no line of it starts with \<^verbatim>\<open>package \<close>, it gets no import either. The text comes back
  as it was: no line is a package clause, and the reference \<^verbatim>\<open>"testing"\<close> does not occur.
\<close>

theorem cleanupGeneratedCode_misses_package_and_import:
  "cleanupGeneratedCode commentOnly ''calc'' [] = commentOnly
   \<and> \<not> Contains (cleanupGeneratedCode commentOnly ''calc'' []) testingRef
   \<and> filter isPackageLine (Split (cleanupGeneratedCode commentOnly ''calc'' []) ''\<newline>'') = []"
  unfolding commentOnly_def by code_simp

text \<open>Nor is a second package clause removed.\<close>

lemma cleanupGeneratedCode_two_clauses:
  "length (filter isPackageLine (Split (cleanupGeneratedCode ''package a\<newline>package b'' ''calc'' []) ''\<newline>'')) = 2"
  by code_simp

section \<open>Branch names\<close>

text \<open>
  C10. Not every branch name is entirely lower case: \<^verbatim>\<open>strings.ToLower\<close> leaves a capital
  letter that has no lower case in Unicode as it is. For a file in the directory named
  \<open>U+2102\<close>, the double-struck capital C, \<open>createBranchName\<close> returns \<^verbatim>\<open>auto-tests-\<close> followed
  by that letter, and the letter is upper case.
\<close>

theorem createBranchName_keeps_capital:
  "createBranchName sampleTables capitalPath = ''auto-tests-'' @ [CHR 0xE2, CHR 0x84, CHR 0x82]
   \<and> runes (createBranchName sampleTables capitalPath) = runes ''auto-tests-'' @ [0x2102]
   \<and> unicodeIsUpper sampleTables 0x2102
   \<and> \<not> entirelyLower sampleTables (createBranchName sampleTables capitalPath)"
  unfolding capitalPath_def by code_simp

text \<open>
  C10, as amended. For every file path, \<open>createBranchName\<close> returns a string that begins
  with \<^verbatim>\<open>auto-tests-\<close> and has no \<^verbatim>\<open>/\<close>, no \<^verbatim>\<open>_\<close> and no ASCII capital, given that the
  Unicode tables lower no rune above ASCII to one of these (\<open>lowerContract\<close>). The result
  is entirely lower case exactly when lower-casing makes of no rune of the directory of
  the path (\<^verbatim>\<open>filepath.Dir\<close>) an upper-case letter; so it is when the directory has only
  ASCII bytes. When the directory is the current directory (\<^verbatim>\<open>.\<close>) the result is exactly
  \<^verbatim>\<open>auto-tests-root\<close>.
\<close>

theorem createBranchName_shape:
  assumes "lowerContract tables"
  shows "HasPrefix (createBranchName tables filePath) ''auto-tests-''
       \<and> list_all branchChar (createBranchName tables filePath)
       \<and> (entirelyLower tables (createBranchName tables filePath)
            \<longleftrightarrow> list_all (\<lambda>r. \<not> unicodeIsUpper tables r) (lowerRunes tables (Dir filePath)))
       \<and> (list_all isASCII (Dir filePath) \<longrightarrow>
            entirelyLower tables (createBranchName tables filePath))
       \<and> (Dir filePath = ''.'' \<longrightarrow> createBranchName tables filePath = ''auto-tests-root'')"
proof -
  define dir where "dir = Dir filePath"
  define a where "a = ReplaceAll dir ''/'' ''-''"
  define b where "b = ReplaceAll a ''_'' ''-''"
  define name where "name = createBranchName tables filePath"
  have ascii: "isASCII CHR ''/''" "isASCII CHR ''_''" "isASCII CHR ''-''"
    by (simp_all add: isASCII_def)
  have root: "name = ''auto-tests-root''" if "dir = ''.''"
    using that by (simp add: name_def dir_def createBranchName_def)
  have eq: "name = ''auto-tests-'' @ ToLower tables b" if "dir \<noteq> ''.''"
    using that by (simp add: name_def dir_def createBranchName_def a_def b_def Let_def)
  have p: "list_all branchChar ''auto-tests-''" "list_all isASCII ''auto-tests-''"
    by (simp_all add: branchChar_def isUpperASCII_def isASCII_def)
  have bytes: "list_all branchChar name"
  proof (cases "dir = ''.''")
    case True
    then show ?thesis
      by (simp add: root branchChar_def isUpperASCII_def)
  next
    case False
    have "set b \<subseteq> insert CHR ''-'' (set a - {CHR ''_''})"
      unfolding b_def by (rule set_ReplaceAll_single)
    moreover have "set a \<subseteq> insert CHR ''-'' (set dir - {CHR ''/''})"
      unfolding a_def by (rule set_ReplaceAll_single)
    ultimately have "CHR ''/'' \<notin> set b" and "CHR ''_'' \<notin> set b"
      by auto
    then have "list_all branchChar (ToLower tables b)"
      using assms by (intro branchChar_ToLower)
    with p(1) show ?thesis
      by (simp add: eq [OF False])
  qed
  have ab: "list_all isASCII b \<longleftrightarrow> list_all isASCII dir"
    unfolding b_def a_def by (simp add: isASCII_ReplaceAll ascii)
  have low: "entirelyLower tables name" if d: "list_all isASCII dir"
  proof -
    have "list_all isASCII name"
    proof (cases "dir = ''.''")
      case True
      then show ?thesis by (simp add: root isASCII_def)
    next
      case False
      from d ab have "list_all isASCII b" by simp
      then have "list_all isASCII (ToLower tables b)"
        by (simp add: ToLower_def list_all_iff isASCII_lowerASCII)
      with p(2) show ?thesis
        by (simp add: eq [OF False])
    qed
    then show ?thesis
      using bytes by (rule entirelyLower_ascii)
  qed
  have same: "list_all (\<lambda>r. \<not> unicodeIsUpper tables r) (lowerRunes tables b)
      \<longleftrightarrow> list_all (\<lambda>r. \<not> unicodeIsUpper tables r) (lowerRunes tables dir)"
    unfolding b_def a_def by (simp add: lowerRunes_swap ascii)
  have iff: "entirelyLower tables name
      \<longleftrightarrow> list_all (\<lambda>r. \<not> unicodeIsUpper tables r) (lowerRunes tables dir)"
  proof (cases "list_all isASCII dir")
    case True
    then show ?thesis
      using low lowerRunes_ascii [of dir tables] by simp
  next
    case False
    then have "dir \<noteq> ''.''" by (auto simp: isASCII_def)
    moreover from False ab have "ToLower tables b = Map (unicodeToLower tables) b"
      by (simp add: ToLower_def)
    ultimately have "name = ''auto-tests-'' @ Map (unicodeToLower tables) b"
      by (simp add: eq)
    then show ?thesis
      using entirelyLower_Map [OF p(2) p(1), of tables b] same by simp
  qed
  have "HasPrefix name ''auto-tests-''"
  proof (cases "dir = ''.''")
    case True
    then show ?thesis by (simp add: root HasPrefix_def)
  next
    case False
    show ?thesis unfolding eq [OF False] by (rule HasPrefix_append)
  qed
  with bytes iff low root show ?thesis
    unfolding name_def dir_def by blast
qed

theorem createBranchName_shape_witness:
  "lowerContract sampleTables
   \<and> list_all isASCII (Dir ''pkg/My_Sub/calc.go'')
   \<and> createBranchName sampleTables ''pkg/My_Sub/calc.go'' = ''auto-tests-pkg-my-sub''
   \<and> HasPrefix ''auto-tests-pkg-my-sub'' ''auto-tests-''
   \<and> list_all branchChar ''auto-tests-pkg-my-sub''
   \<and> entirelyLower sampleTables ''auto-tests-pkg-my-sub''
   \<and> Dir ''factorial.go'' = ''.''
   \<and> createBranchName sampleTables ''factorial.go'' = ''auto-tests-root''
   \<and> list_all (\<lambda>r. \<not> unicodeIsUpper sampleTables r) (lowerRunes sampleTables (Dir accentPath))
   \<and> list_all branchChar (createBranchName sampleTables accentPath)
   \<and> entirelyLower sampleTables (createBranchName sampleTables accentPath)"
proof -
  have c: "lowerContract sampleTables" by (rule lowerContract_sample)
  have e: "createBranchName sampleTables ''pkg/My_Sub/calc.go'' = ''auto-tests-pkg-my-sub''"
    by code_simp
  have a: "list_all isASCII (Dir ''pkg/My_Sub/calc.go'')" by code_simp
  have d: "Dir ''factorial.go'' = ''.''" by code_simp
  have l: "list_all (\<lambda>r. \<not> unicodeIsUpper sampleTables r)
             (lowerRunes sampleTables (Dir accentPath))"
    unfolding accentPath_def by code_simp
  let ?n = "createBranchName sampleTables ''pkg/My_Sub/calc.go''"
  from createBranchName_shape [OF c, of "''pkg/My_Sub/calc.go''"] a
  have "HasPrefix ?n ''auto-tests-'' \<and> list_all branchChar ?n \<and> entirelyLower sampleTables ?n"
    by blast
  then have x: "HasPrefix ''auto-tests-pkg-my-sub'' ''auto-tests-''
      \<and> list_all branchChar ''auto-tests-pkg-my-sub''
      \<and> entirelyLower sampleTables ''auto-tests-pkg-my-sub''"
    unfolding e .
  from createBranchName_shape [OF c, of "''factorial.go''"] d
  have y: "createBranchName sampleTables ''factorial.go'' = ''auto-tests-root''"
    by blast
  from createBranchName_shape [OF c, of accentPath] l
  have z: "list_all branchChar (createBranchName sampleTables accentPath)
      \<and> entirelyLower sampleTables (createBranchName sampleTables accentPath)"
    by blast
  from c a e d l x y z show ?thesis
    by (intro conjI) (elim conjE, assumption)+
qed

text \<open>
  With the rows of \<open>sampleTables\<close>, a capital letter that has a lower case is lowered also
  above ASCII.
\<close>

lemma createBranchName_accent:
  "createBranchName sampleTables accentPath = ''auto-tests-'' @ [CHR 0xC3, CHR 0xA9] @ ''cole''
   \<and> entirelyLower sampleTables (createBranchName sampleTables accentPath)"
  unfolding accentPath_def by code_simp

end
